theory Spec2Isabelle
  imports Complex_Main
begin

section \<open>Wobbly: the project model of \<open>WobblyProject.cpp\<close>\<close>

text \<open>
  A shallow embedding of the editorial core of Wobbly. Every method of
  \<open>WobblyProject\<close> that is modelled takes the project and returns either an error
  (the \<open>WobblyException\<close> it throws, classified by its message) or its result
  together with the updated project. Frame numbers are C++ \<open>int\<close>s; they are kept
  as mathematical integers, because every frame number that passes a range check lies
  in \<open>[0, num_frames)\<close> and no arithmetic on it can leave the range of \<open>int\<close>.
\<close>

subsection \<open>Errors\<close>

text \<open>
  The source throws a single exception class with a message. The constructors name the
  kinds of message: \<open>frame number out of range\<close>, \<open>is not a valid match character\<close>,
  \<open>no such preset\<close>, \<open>name is invalid\<close>, \<open>already in use / already exists\<close>,
  \<open>no such section\<close>, \<open>there are no mics in the project\<close>, the messages of
  \<open>readProject\<close>, and the failed frame number conversion. \<open>UndefinedBehaviour\<close>
  stands for an access outside a \<open>std::vector\<close> or \<open>std::string\<close>, or a conversion
  of a double outside the range of \<open>int\<close>, which C++ leaves undefined.
\<close>

datatype error =
    OutOfRange
  | InvalidMatchChar
  | NoSuchPreset
  | InvalidName
  | NameInUse
  | NoSuchSection
  | NoMics
  | ParseError
  | ConversionFailed
  | UndefinedBehaviour

subsection \<open>The types of \<open>WobblyTypes.h\<close>\<close>

record FreezeFrame =
  ff_first :: int
  ff_last :: int
  ff_replacement :: int

record Preset =
  preset_name :: string
  preset_contents :: string

record Section =
  sect_start :: int
  sect_presets :: "string list"

record FrameRange =
  range_first :: int
  range_last :: int

record CustomList =
  cl_name :: string
  cl_preset :: string
  cl_position :: int
  cl_ranges :: "(int \<times> FrameRange) list"

datatype DropDuplicate =
    DropFirstDuplicate
  | DropSecondDuplicate
  | DropUglierDuplicatePerCycle
  | DropUglierDuplicatePerSection

datatype PatternGuessingFailureReason = SectionTooShort | AmbiguousMatchPattern

record FailedPatternGuessing =
  failure_start :: int
  failure_reason :: PatternGuessingFailureReason

record PatternGuessing =
  pg_method :: int
  pg_minimum_length :: int
  pg_third_n_match :: int
  pg_decimation :: int
  pg_use_patterns :: int
  pg_failures :: "int \<rightharpoonup> FailedPatternGuessing"

subsection \<open>The project\<close>

text \<open>
  \<open>UndoStep\<close> is the snapshot taken by \<open>commit\<close>. The collections that the
  source keeps in models derived from \<open>std::map\<close> and \<open>std::set\<close> are maps and
  sets here; \<open>sections\<close> (a \<open>std::map<int, Section>\<close> whose key is the
  section's own \<open>start\<close>) is kept as the list of its sections in key order, because
  the source iterates over it and searches it with \<open>upper_bound\<close>. A cycle of
  \<open>decimated_frames\<close> is the \<open>std::set<int8_t>\<close> of its dropped offsets. An entry
  of \<open>mics\<close> is a \<open>std::array<int16_t, 5>\<close>: its elements are kept as the integers
  they denote, since every use promotes them to \<open>int\<close> first.
\<close>

record UndoStep =
  us_description :: string
  us_matches :: string
  us_decimated_frames :: "int set list"
  us_pattern_guessing :: PatternGuessing
  us_presets :: "string \<rightharpoonup> Preset"
  us_custom_lists :: "CustomList list"
  us_combed_frames :: "int set"
  us_frozen_frames :: "int \<rightharpoonup> FreezeFrame"
  us_sections :: "Section list"
  us_bookmarks :: "int \<rightharpoonup> string"

record project =
  num_frames_source :: int
  num_frames_decimated :: int
  is_modified :: bool
  matches :: string
  original_matches :: string
  mics :: "int list list"
  decimated_frames :: "int set list"
  pattern_guessing :: PatternGuessing
  presets :: "string \<rightharpoonup> Preset"
  custom_lists :: "CustomList list"
  combed_frames :: "int set"
  frozen_frames :: "int \<rightharpoonup> FreezeFrame"
  sections :: "Section list"
  bookmarks :: "int \<rightharpoonup> string"
  undo_stack :: "UndoStep list"
  redo_stack :: "UndoStep list"
  undo_steps :: nat

text \<open>
  \<open>getNumFrames(PostSource)\<close> is the field \<open>num_frames_source\<close> (the source's
  \<open>num_frames[0]\<close>) and \<open>getNumFrames(PostDecimate)\<close> is \<open>num_frames_decimated\<close>
  (\<open>num_frames[1]\<close>); \<open>setModified(true)\<close> sets \<open>is_modified\<close>.
\<close>

definition setModified :: "bool \<Rightarrow> project \<Rightarrow> project" where
  "setModified modified p = (if modified \<noteq> is_modified p then p\<lparr>is_modified := modified\<rparr> else p)"

subsection \<open>Matches\<close>

definition isValidMatchChar :: "char \<Rightarrow> bool" where
  "isValidMatchChar match \<longleftrightarrow>
     match = CHR ''p'' \<or> match = CHR ''c'' \<or> match = CHR ''n'' \<or> match = CHR ''b'' \<or> match = CHR ''u''"

definition getMatch :: "project \<Rightarrow> int \<Rightarrow> error + char" where
  "getMatch p frame =
     (if frame < 0 \<or> frame \<ge> num_frames_source p then Inl OutOfRange
      else if matches p \<noteq> [] then
        (if nat frame < length (matches p) then Inr (matches p ! nat frame) else Inl UndefinedBehaviour)
      else if original_matches p \<noteq> [] then
        (if nat frame < length (original_matches p) then Inr (original_matches p ! nat frame)
         else Inl UndefinedBehaviour)
      else Inr CHR ''c'')"

definition setMatch :: "project \<Rightarrow> int \<Rightarrow> char \<Rightarrow> error + project" where
  "setMatch p frame match =
     (if frame < 0 \<or> frame \<ge> num_frames_source p then Inl OutOfRange
      else if \<not> isValidMatchChar match then Inl InvalidMatchChar
      else
        let match' =
              (if frame = 0 then
                 (if match = CHR ''b'' then CHR ''n''
                  else if match = CHR ''p'' then CHR ''u'' else match)
               else if frame = num_frames_source p - 1 then
                 (if match = CHR ''n'' then CHR ''b''
                  else if match = CHR ''u'' then CHR ''p'' else match)
               else match);
            ms = (if matches p = [] then replicate (nat (num_frames_source p)) CHR ''c''
                  else matches p)
        in if nat frame < length ms then Inr (p\<lparr>matches := ms[nat frame := match']\<rparr>)
           else Inl UndefinedBehaviour)"

subsection \<open>Sections, custom lists and the constructor\<close>

text \<open>
  \<open>std::map::insert\<close> on the sections: the new section goes to its place in key
  order, and a section that already starts there is kept.
\<close>

fun sections_insert :: "Section \<Rightarrow> Section list \<Rightarrow> Section list" where
  "sections_insert s [] = [s]"
| "sections_insert s (t # ts) =
     (if sect_start s < sect_start t then s # t # ts
      else if sect_start s = sect_start t then t # ts
      else t # sections_insert s ts)"

definition sections_count :: "Section list \<Rightarrow> int \<Rightarrow> bool" where
  "sections_count ss start \<longleftrightarrow> (\<exists>s \<in> set ss. sect_start s = start)"

definition addSection :: "project \<Rightarrow> int \<Rightarrow> error + project" where
  "addSection p start =
     (if start < 0 \<or> start \<ge> num_frames_source p then Inl OutOfRange
      else Inr (setModified True
             (p\<lparr>sections := sections_insert \<lparr>sect_start = start, sect_presets = []\<rparr> (sections p)\<rparr>)))"

definition findNextSection :: "project \<Rightarrow> int \<Rightarrow> error + Section option" where
  "findNextSection p frame =
     (if frame < 0 \<or> frame \<ge> num_frames_source p then Inl OutOfRange
      else Inr (find (\<lambda>s. frame < sect_start s) (sections p)))"

definition getSectionEnd :: "project \<Rightarrow> int \<Rightarrow> error + int" where
  "getSectionEnd p frame =
     (if frame < 0 \<or> frame \<ge> num_frames_source p then Inl OutOfRange
      else case findNextSection p frame of
             Inl e \<Rightarrow> Inl e
           | Inr (Some next_section) \<Rightarrow> Inr (sect_start next_section)
           | Inr None \<Rightarrow> Inr (num_frames_source p))"

text \<open>
  Modelled from the spec: \<open>SectionsModel::appendSectionPreset\<close>,
  \<open>SectionsModel::deleteSectionPreset\<close>, \<open>SectionsModel::setSectionPresetName\<close> and
  \<open>CustomListsModel::setCustomListPreset\<close> are not in the sources at hand. The spec's
  \<open>append_preset(section_start, preset_name)\<close> appends to the preset list of the
  section starting at \<open>section_start\<close> (duplicates allowed);
  \<open>delete_preset(section_start, index)\<close> removes the entry at \<open>index\<close> from it;
  renaming rewrites the entry at \<open>index\<close>; the custom list's preset reference is
  replaced. Each is only ever called with an index inside the list.
\<close>

definition SectionsModel_appendSectionPreset :: "Section list \<Rightarrow> int \<Rightarrow> string \<Rightarrow> Section list" where
  "SectionsModel_appendSectionPreset ss start name =
     map (\<lambda>s. if sect_start s = start
              then s\<lparr>sect_presets := sect_presets s @ [name]\<rparr> else s) ss"

definition SectionsModel_deleteSectionPreset :: "Section list \<Rightarrow> int \<Rightarrow> nat \<Rightarrow> Section list" where
  "SectionsModel_deleteSectionPreset ss start preset_index =
     map (\<lambda>s. if sect_start s = start
              then s\<lparr>sect_presets :=
                     take preset_index (sect_presets s) @ drop (Suc preset_index) (sect_presets s)\<rparr>
              else s) ss"

definition SectionsModel_setSectionPresetName ::
    "Section list \<Rightarrow> int \<Rightarrow> nat \<Rightarrow> string \<Rightarrow> Section list" where
  "SectionsModel_setSectionPresetName ss start preset_index new_name =
     map (\<lambda>s. if sect_start s = start
              then s\<lparr>sect_presets := (sect_presets s)[preset_index := new_name]\<rparr>
              else s) ss"

definition CustomListsModel_setCustomListPreset ::
    "CustomList list \<Rightarrow> nat \<Rightarrow> string \<Rightarrow> CustomList list" where
  "CustomListsModel_setCustomListPreset cls list_index new_name =
     (if list_index < length cls then cls[list_index := (cls ! list_index)\<lparr>cl_preset := new_name\<rparr>]
      else cls)"

text \<open>
  The constructor \<open>WobblyProject(is_wobbly, input_file, source_filter, fps_num, fps_den,
  width, height, num_frames)\<close>, for the fields of the model. The number of undo steps
  is set by the declaration of the class, which is not in the sources at hand, so it
  is a parameter here. \<open>(num_frames - 1) / 5\<close> is C++ division, which truncates toward
  zero. For \<open>num_frames \<le> 0\<close> the constructor throws: \<open>addSection(0)\<close> refuses the
  start.
\<close>

definition cpp_div :: "int \<Rightarrow> int \<Rightarrow> int" where
  "cpp_div a b = sgn a * sgn b * (\<bar>a\<bar> div \<bar>b\<bar>)"

definition new_project :: "int \<Rightarrow> nat \<Rightarrow> error + project" where
  "new_project n steps =
     (case addSection
        \<lparr>num_frames_source = n, num_frames_decimated = n, is_modified = False,
         matches = [], original_matches = [], mics = [],
         decimated_frames = replicate (nat (cpp_div (n - 1) 5 + 1)) {},
         pattern_guessing =
           \<lparr>pg_method = 1, pg_minimum_length = 10, pg_third_n_match = 1, pg_decimation = 0,
            pg_use_patterns = 7, pg_failures = Map.empty\<rparr>,
         presets = Map.empty, custom_lists = [], combed_frames = {},
         frozen_frames = Map.empty, sections = [], bookmarks = Map.empty,
         undo_stack = [], redo_stack = [], undo_steps = steps\<rparr> 0 of
        Inl e \<Rightarrow> Inl e
      | Inr p \<Rightarrow> Inr (setModified False p))"

subsection \<open>Presets\<close>

definition isNameSafeForPython :: "string \<Rightarrow> bool" where
  "isNameSafeForPython name \<longleftrightarrow>
     list_all (\<lambda>i.
        let c = (of_char (name ! i) :: nat) in
          (97 \<le> c \<and> c \<le> 122) \<or> (65 \<le> c \<and> c \<le> 90) \<or> (i \<noteq> 0 \<and> 48 \<le> c \<and> c \<le> 57) \<or> c = 95)
       [0..<length name]"

definition presetExists :: "project \<Rightarrow> string \<Rightarrow> bool" where
  "presetExists p name \<longleftrightarrow> presets p name \<noteq> None"

definition addPreset :: "project \<Rightarrow> string \<Rightarrow> string \<Rightarrow> error + project" where
  "addPreset p name cont =
     (if \<not> isNameSafeForPython name then Inl InvalidName
      else if presetExists p name then Inl NameInUse
      else Inr (setModified True
             (p\<lparr>presets := (presets p)(name \<mapsto> \<lparr>preset_name = name, preset_contents = cont\<rparr>)\<rparr>)))"

definition getPresetContents :: "project \<Rightarrow> string \<Rightarrow> error + string" where
  "getPresetContents p name =
     (case presets p name of None \<Rightarrow> Inl NoSuchPreset | Some preset \<Rightarrow> Inr (preset_contents preset))"

definition isPresetInUse :: "project \<Rightarrow> string \<Rightarrow> error + bool" where
  "isPresetInUse p name =
     (if presets p name = None then Inl NoSuchPreset
      else Inr ((\<exists>s \<in> set (sections p). \<exists>j < length (sect_presets s). sect_presets s ! j = name)
                \<or> (\<exists>c \<in> set (custom_lists p). cl_preset c = name)))"

text \<open>
  The loops of \<open>renamePreset\<close> and \<open>deletePreset\<close> over the sections. The iterator
  \<open>it\<close> is the position \<open>i\<close> in the list; the inner loop reads the size of the
  section's preset list again at every step, and calls the model with the section's
  \<open>start\<close> and the index \<open>j\<close>. Neither call changes
  the number of sections, so the outer loop runs over the positions of the list.
\<close>

function rename_in_section :: "string \<Rightarrow> string \<Rightarrow> nat \<Rightarrow> nat \<Rightarrow> Section list \<Rightarrow> Section list" where
  "rename_in_section old_name new_name i j ss =
     (if i < length ss \<and> j < length (sect_presets (ss ! i)) then
        rename_in_section old_name new_name i (Suc j)
          (if sect_presets (ss ! i) ! j = old_name
           then SectionsModel_setSectionPresetName ss (sect_start (ss ! i)) j new_name
           else ss)
      else ss)"
  by pat_completeness auto
termination
  by (relation "measure (\<lambda>(old_name, new_name, i, j, ss). length (sect_presets (ss ! i)) - j)")
     (auto simp: SectionsModel_setSectionPresetName_def)

definition rename_in_sections :: "string \<Rightarrow> string \<Rightarrow> Section list \<Rightarrow> Section list" where
  "rename_in_sections old_name new_name ss =
     fold (\<lambda>i ss'. rename_in_section old_name new_name i 0 ss') [0..<length ss] ss"

function delete_in_section :: "string \<Rightarrow> nat \<Rightarrow> nat \<Rightarrow> Section list \<Rightarrow> Section list" where
  "delete_in_section name i j ss =
     (if i < length ss \<and> j < length (sect_presets (ss ! i)) then
        delete_in_section name i (Suc j)
          (if sect_presets (ss ! i) ! j = name
           then SectionsModel_deleteSectionPreset ss (sect_start (ss ! i)) j
           else ss)
      else ss)"
  by pat_completeness auto
termination
  by (relation "measure (\<lambda>(name, i, j, ss). length (sect_presets (ss ! i)) - j)")
     (auto simp: SectionsModel_deleteSectionPreset_def)

definition delete_in_sections :: "string \<Rightarrow> Section list \<Rightarrow> Section list" where
  "delete_in_sections name ss = fold (\<lambda>i ss'. delete_in_section name i 0 ss') [0..<length ss] ss"

fun set_list_presets :: "string \<Rightarrow> string \<Rightarrow> nat list \<Rightarrow> CustomList list \<Rightarrow> CustomList list" where
  "set_list_presets old_name new_name [] cls = cls"
| "set_list_presets old_name new_name (i # is) cls =
     set_list_presets old_name new_name is
       (if cl_preset (cls ! i) = old_name
        then CustomListsModel_setCustomListPreset cls i new_name else cls)"

definition renamePreset :: "project \<Rightarrow> string \<Rightarrow> string \<Rightarrow> error + project" where
  "renamePreset p old_name new_name =
     (if old_name = new_name then Inr p
      else if presets p old_name = None then Inl NoSuchPreset
      else if \<not> isNameSafeForPython new_name then Inl InvalidName
      else if presetExists p new_name then Inl NameInUse
      else case getPresetContents p old_name of
             Inl e \<Rightarrow> Inl e
           | Inr cont \<Rightarrow>
               Inr (setModified True
                 (p\<lparr>presets := ((presets p)(old_name := None))
                                  (new_name \<mapsto> \<lparr>preset_name = new_name, preset_contents = cont\<rparr>),
                    sections := rename_in_sections old_name new_name (sections p),
                    custom_lists :=
                      set_list_presets old_name new_name [0..<length (custom_lists p)] (custom_lists p)\<rparr>)))"

definition deletePreset :: "project \<Rightarrow> string \<Rightarrow> error + project" where
  "deletePreset p name =
     (if \<not> presetExists p name then Inl NoSuchPreset
      else Inr (setModified True
             (p\<lparr>presets := (presets p)(name := None),
                sections := delete_in_sections name (sections p),
                custom_lists :=
                  set_list_presets name [] [0..<length (custom_lists p)] (custom_lists p)\<rparr>)))"

text \<open>
  \<open>setSectionPreset\<close> appends a preset to a section; as its comment says, the user
  may want to assign the same preset twice.
\<close>

definition setSectionPreset :: "project \<Rightarrow> int \<Rightarrow> string \<Rightarrow> error + project" where
  "setSectionPreset p start name =
     (if start < 0 \<or> start \<ge> num_frames_source p then Inl OutOfRange
      else if \<not> sections_count (sections p) start then Inl NoSuchSection
      else if presets p name = None then Inl NoSuchPreset
      else Inr (setModified True
             (p\<lparr>sections := SectionsModel_appendSectionPreset (sections p) start name\<rparr>)))"

subsection \<open>Decimated frames\<close>

text \<open>
  \<open>decimated_frames[frame / 5]\<close> is an access to a \<open>std::vector\<close>: outside the vector
  it is undefined. \<open>insert\<close> reports whether the offset was new, \<open>erase\<close> how many
  elements it removed.
\<close>

definition addDecimatedFrame :: "project \<Rightarrow> int \<Rightarrow> error + project" where
  "addDecimatedFrame p frame =
     (if frame < 0 \<or> frame \<ge> num_frames_source p then Inl OutOfRange
      else if nat (frame div 5) \<ge> length (decimated_frames p) then Inl UndefinedBehaviour
      else if card (decimated_frames p ! nat (frame div 5)) = 5 - 1 then Inr p
      else if frame mod 5 \<in> decimated_frames p ! nat (frame div 5) then Inr p
      else Inr (setModified True
             (p\<lparr>decimated_frames :=
                  (decimated_frames p)[nat (frame div 5) :=
                     insert (frame mod 5) (decimated_frames p ! nat (frame div 5))],
                num_frames_decimated := num_frames_decimated p - 1\<rparr>)))"

definition deleteDecimatedFrame :: "project \<Rightarrow> int \<Rightarrow> error + project" where
  "deleteDecimatedFrame p frame =
     (if frame < 0 \<or> frame \<ge> num_frames_source p then Inl OutOfRange
      else if nat (frame div 5) \<ge> length (decimated_frames p) then Inl UndefinedBehaviour
      else if frame mod 5 \<in> decimated_frames p ! nat (frame div 5) then
        Inr (setModified True
             (p\<lparr>decimated_frames :=
                  (decimated_frames p)[nat (frame div 5) :=
                     decimated_frames p ! nat (frame div 5) - {frame mod 5}],
                num_frames_decimated := num_frames_decimated p + 1\<rparr>))
      else Inr p)"

definition isDecimatedFrame :: "project \<Rightarrow> int \<Rightarrow> error + bool" where
  "isDecimatedFrame p frame =
     (if frame < 0 \<or> frame \<ge> num_frames_source p then Inl OutOfRange
      else if nat (frame div 5) \<ge> length (decimated_frames p) then Inl UndefinedBehaviour
      else Inr (frame mod 5 \<in> decimated_frames p ! nat (frame div 5)))"

definition clearDecimatedFramesFromCycle :: "project \<Rightarrow> int \<Rightarrow> error + project" where
  "clearDecimatedFramesFromCycle p frame =
     (if frame < 0 \<or> frame \<ge> num_frames_source p then Inl OutOfRange
      else if nat (frame div 5) \<ge> length (decimated_frames p) then Inl UndefinedBehaviour
      else Inr (p\<lparr>decimated_frames := (decimated_frames p)[nat (frame div 5) := {}],
                num_frames_decimated :=
                  num_frames_decimated p + int (card (decimated_frames p ! nat (frame div 5)))\<rparr>))"

subsection \<open>Patterns over a range\<close>

text \<open>
  \<open>pattern[i % 5]\<close> reads a \<open>std::string\<close>: inside the string it is the character,
  at \<open>pattern.size()\<close> it is the terminating zero character, beyond it the access is
  undefined.
\<close>

definition string_at :: "string \<Rightarrow> int \<Rightarrow> error + char" where
  "string_at pattern i =
     (if 0 \<le> i \<and> nat i < length pattern then Inr (pattern ! nat i)
      else if nat i = length pattern \<and> 0 \<le> i then Inr (CHR 0x00)
      else Inl UndefinedBehaviour)"

text \<open>One pass of the loop body of \<open>setRangeMatchesFromPattern\<close>, at frame \<open>i\<close>.\<close>

definition range_match_step :: "int \<Rightarrow> string \<Rightarrow> project \<Rightarrow> int \<Rightarrow> error + project" where
  "range_match_step range_end pattern p i =
     (case string_at pattern (i mod 5) of
        Inl e \<Rightarrow> Inl e
      | Inr c \<Rightarrow>
          if i = 0 \<and> (c = CHR ''p'' \<or> c = CHR ''b'') then Inr p
          else if i = num_frames_source p - 1 \<and> (c = CHR ''n'' \<or> c = CHR ''u'') then
            (if c = CHR ''n'' then setMatch p i CHR ''b'' else Inr p)
          else if i = range_end \<and> c = CHR ''n'' then setMatch p i CHR ''b''
          else setMatch p i c)"

fun for_frames :: "(project \<Rightarrow> int \<Rightarrow> error + project) \<Rightarrow> int list \<Rightarrow> project \<Rightarrow> error + project" where
  "for_frames body [] p = Inr p"
| "for_frames body (i # is) p =
     (case body p i of Inl e \<Rightarrow> Inl e | Inr p' \<Rightarrow> for_frames body is p')"

definition setRangeMatchesFromPattern :: "project \<Rightarrow> int \<Rightarrow> int \<Rightarrow> string \<Rightarrow> error + project" where
  "setRangeMatchesFromPattern p range_start range_end pattern =
     (let (range_start, range_end) =
            (if range_start > range_end then (range_end, range_start) else (range_start, range_end))
      in if range_start < 0 \<or> range_end \<ge> num_frames_source p then Inl OutOfRange
         else case for_frames (range_match_step range_end pattern) [range_start..range_end] p of
                Inl e \<Rightarrow> Inl e
              | Inr p' \<Rightarrow> Inr (setModified True p'))"

definition range_decimation_step :: "string \<Rightarrow> project \<Rightarrow> int \<Rightarrow> error + project" where
  "range_decimation_step pattern p i =
     (case string_at pattern (i mod 5) of
        Inl e \<Rightarrow> Inl e
      | Inr c \<Rightarrow> if c = CHR ''d'' then addDecimatedFrame p i else deleteDecimatedFrame p i)"

definition setRangeDecimationFromPattern :: "project \<Rightarrow> int \<Rightarrow> int \<Rightarrow> string \<Rightarrow> error + project" where
  "setRangeDecimationFromPattern p range_start range_end pattern =
     (let (range_start, range_end) =
            (if range_start > range_end then (range_end, range_start) else (range_start, range_end))
      in if range_start < 0 \<or> range_end \<ge> num_frames_source p then Inl OutOfRange
         else case for_frames (range_decimation_step pattern) [range_start..range_end] p of
                Inl e \<Rightarrow> Inl e
              | Inr p' \<Rightarrow> Inr (setModified True p'))"

subsection \<open>Undo and redo\<close>

definition restoreState :: "project \<Rightarrow> UndoStep \<Rightarrow> project" where
  "restoreState p state =
     p\<lparr>matches := us_matches state,
       decimated_frames := us_decimated_frames state,
       pattern_guessing := us_pattern_guessing state,
       presets := us_presets state,
       custom_lists := us_custom_lists state,
       combed_frames := us_combed_frames state,
       frozen_frames := us_frozen_frames state,
       sections := us_sections state,
       bookmarks := us_bookmarks state\<rparr>"

text \<open>The loop \<open>while (undo_stack.size() > undo_steps) undo_stack.pop_front()\<close>.\<close>

function pop_front_while :: "nat \<Rightarrow> UndoStep list \<Rightarrow> UndoStep list" where
  "pop_front_while steps stack =
     (if length stack > steps then pop_front_while steps (tl stack) else stack)"
  by pat_completeness auto
termination
  by (relation "measure (\<lambda>(steps, stack). length stack)") auto

definition commit :: "project \<Rightarrow> string \<Rightarrow> project" where
  "commit p description =
     (let step = \<lparr>us_description = description,
                  us_matches = matches p,
                  us_decimated_frames = decimated_frames p,
                  us_pattern_guessing = pattern_guessing p,
                  us_presets = presets p,
                  us_custom_lists = custom_lists p,
                  us_combed_frames = combed_frames p,
                  us_frozen_frames = frozen_frames p,
                  us_sections = sections p,
                  us_bookmarks = bookmarks p\<rparr>
      in p\<lparr>undo_stack := pop_front_while (undo_steps p) (undo_stack p @ [step]),
           redo_stack := []\<rparr>)"

definition undo :: "project \<Rightarrow> project" where
  "undo p =
     (if length (undo_stack p) \<le> 1 then p
      else restoreState
             (p\<lparr>redo_stack := redo_stack p @ [last (undo_stack p)],
                undo_stack := butlast (undo_stack p)\<rparr>)
             (last (butlast (undo_stack p))))"

definition redo :: "project \<Rightarrow> project" where
  "redo p =
     (if redo_stack p = [] then p
      else (restoreState p (last (redo_stack p)))
             \<lparr>undo_stack := undo_stack p @ [last (redo_stack p)],
              redo_stack := butlast (redo_stack p)\<rparr>)"

text \<open>
  What \<open>commit\<close> snapshots and \<open>restoreState\<close> puts back: the observable state of
  the undo law.
\<close>

definition observable :: "project \<Rightarrow> string \<times> int set list \<times> PatternGuessing \<times> (string \<rightharpoonup> Preset) \<times>
    CustomList list \<times> int set \<times> (int \<rightharpoonup> FreezeFrame) \<times> Section list \<times> (int \<rightharpoonup> string)" where
  "observable p =
     (matches p, decimated_frames p, pattern_guessing p, presets p, custom_lists p,
      combed_frames p, frozen_frames p, sections p, bookmarks p)"

subsection \<open>Frame numbers before and after decimation\<close>

definition frameNumberAfterDecimation :: "project \<Rightarrow> int \<Rightarrow> error + int" where
  "frameNumberAfterDecimation p frame =
     (if frame < 0 then Inr 0
      else if frame \<ge> num_frames_source p then Inr (num_frames_decimated p)
      else
        let cycle_number = frame div 5;
            position_in_cycle = frame mod 5
        in if nat cycle_number \<ge> length (decimated_frames p) then Inl UndefinedBehaviour
           else
             let out_frame = cycle_number * 5;
                 out_frame = fold (\<lambda>i out. out - int (card (decimated_frames p ! i)))
                               [0..<nat cycle_number] out_frame;
                 out_frame = fold (\<lambda>i out. if i \<notin> decimated_frames p ! nat cycle_number
                                             then out + 1 else out)
                               [0..position_in_cycle - 1] out_frame
             in case isDecimatedFrame p frame of
                  Inl e \<Rightarrow> Inl e
                | Inr decimated \<Rightarrow>
                    Inr (if frame = num_frames_source p - 1 \<and> decimated then out_frame - 1
                         else out_frame))"

text \<open>
  The two nested loops of \<open>frameNumberBeforeDecimation\<close>. The inner loop over the
  offsets of a cycle either returns the offset at which the counter reached \<open>-1\<close>
  (\<open>Inl\<close>) or ends with the counter (\<open>Inr\<close>); the outer loop walks the cycles and
  throws when none is left.
\<close>

fun scan_offsets :: "int set \<Rightarrow> int list \<Rightarrow> int \<Rightarrow> int + int" where
  "scan_offsets cycle [] frame = Inr frame"
| "scan_offsets cycle (j # js) frame =
     (let frame' = (if j \<notin> cycle then frame - 1 else frame)
      in if frame' = - 1 then Inl j else scan_offsets cycle js frame')"

fun scan_cycles :: "int set list \<Rightarrow> int \<Rightarrow> int \<Rightarrow> error + int" where
  "scan_cycles [] i frame = Inl ConversionFailed"
| "scan_cycles (cycle # cycles) i frame =
     (case scan_offsets cycle [0, 1, 2, 3, 4] frame of
        Inl j \<Rightarrow> Inr (i * 5 + j)
      | Inr frame' \<Rightarrow> scan_cycles cycles (i + 1) frame')"

definition frameNumberBeforeDecimation :: "project \<Rightarrow> int \<Rightarrow> error + int" where
  "frameNumberBeforeDecimation p frame =
     (let frame = (if frame < 0 then 0 else frame);
          frame = (if frame \<ge> num_frames_decimated p then num_frames_decimated p - 1 else frame)
      in scan_cycles (decimated_frames p) 0 frame)"

subsection \<open>Mics\<close>

definition getMics :: "project \<Rightarrow> int \<Rightarrow> error + int list" where
  "getMics p frame =
     (if frame < 0 \<or> frame \<ge> num_frames_source p then Inl OutOfRange
      else if mics p \<noteq> [] then
        (if nat frame < length (mics p) then Inr (mics p ! nat frame) else Inl UndefinedBehaviour)
      else Inr [0, 0, 0, 0, 0])"

text \<open>
  Modelled from the spec: \<open>matchCharToIndex\<close> is declared in \<open>RandomStuff.h\<close>, which
  is not in the sources at hand. The spec's helper \<open>match_char_to_index\<close> maps
  \<open>p\<close> to 0, \<open>c\<close> to 1, \<open>n\<close> to 2, \<open>b\<close> to 3 and \<open>u\<close> to 4 for mics; it says
  nothing about other characters, and the code modelled here passes none.
\<close>

definition matchCharToIndex :: "char \<Rightarrow> nat option" where
  "matchCharToIndex match =
     (if match = CHR ''p'' then Some 0
      else if match = CHR ''c'' then Some 1
      else if match = CHR ''n'' then Some 2
      else if match = CHR ''b'' then Some 3
      else if match = CHR ''u'' then Some 4
      else None)"

text \<open>\<open>getMics(frame)[matchCharToIndex(match)]\<close>.\<close>

definition mic_of :: "project \<Rightarrow> int \<Rightarrow> char \<Rightarrow> error + int" where
  "mic_of p frame match =
     (case getMics p frame of
        Inl e \<Rightarrow> Inl e
      | Inr frame_mics \<Rightarrow>
          (case matchCharToIndex match of
             None \<Rightarrow> Inl UndefinedBehaviour
           | Some k \<Rightarrow> if k < length frame_mics then Inr (frame_mics ! k) else Inl UndefinedBehaviour))"

subsection \<open>Decimation from a guessed pattern\<close>

text \<open>
  The policy \<open>drop_duplicate\<close> is an \<open>int\<close> in the source, compared with the
  constants of the enumeration \<open>DropDuplicate\<close>; the model takes a value of the
  enumeration.
\<close>

text \<open>
  The loop of \<open>applyPatternGuessingDecimation\<close> that finds the uglier duplicate of
  the section: it counts in \<open>(drop_n, drop_c)\<close>.
\<close>

fun count_uglier :: "project \<Rightarrow> int \<Rightarrow> int list \<Rightarrow> int \<times> int \<Rightarrow> error + int \<times> int" where
  "count_uglier p first_duplicate [] counts = Inr counts"
| "count_uglier p first_duplicate (i # is) (drop_n, drop_c) =
     (if i mod 5 = first_duplicate then
        (case mic_of p i CHR ''n'' of
           Inl e \<Rightarrow> Inl e
         | Inr mic_n \<Rightarrow>
             (case mic_of p (i + 1) CHR ''c'' of
                Inl e \<Rightarrow> Inl e
              | Inr mic_c \<Rightarrow>
                  count_uglier p first_duplicate is
                    (if mic_n > mic_c then (drop_n + 1, drop_c) else (drop_n, drop_c + 1))))
      else count_uglier p first_duplicate is (drop_n, drop_c))"

text \<open>
  The first part of the body of the loop over the cycles, which runs when the policy
  is \<open>DropUglierDuplicatePerCycle\<close>: \<open>None\<close> is \<open>continue\<close>, \<open>Some drop\<close> the
  offset to drop_offset from here on.
\<close>

definition per_cycle_drop ::
    "project \<Rightarrow> int \<Rightarrow> int \<Rightarrow> int \<Rightarrow> int \<Rightarrow> int \<Rightarrow> int \<Rightarrow> int \<Rightarrow> error + int option" where
  "per_cycle_drop p section_start section_end first_duplicate first_cycle last_cycle i drop_offset =
     (let decision =
            (if i = first_cycle then
               (if section_start mod 5 > first_duplicate + 1 then None
                else if section_start mod 5 > first_duplicate then Some (first_duplicate + 1)
                else Some drop_offset)
             else if i = last_cycle then
               (if (section_end - 1) mod 5 < first_duplicate then None
                else if (section_end - 1) mod 5 < first_duplicate + 1 then Some first_duplicate
                else Some drop_offset)
             else Some drop_offset)
      in case decision of
           None \<Rightarrow> Inr None
         | Some drop_offset \<Rightarrow>
             if drop_offset = - 1 then
               (case mic_of p (i * 5 + first_duplicate) CHR ''n'' of
                  Inl e \<Rightarrow> Inl e
                | Inr mic_n \<Rightarrow>
                    (case mic_of p (i * 5 + first_duplicate + 1) CHR ''c'' of
                       Inl e \<Rightarrow> Inl e
                     | Inr mic_c \<Rightarrow>
                         Inr (Some (if mic_n > mic_c then first_duplicate
                                    else (first_duplicate + 1) mod 5))))
             else Inr (Some drop_offset))"

text \<open>\<open>if (isDecimatedFrame(j)) deleteDecimatedFrame(j)\<close>, the body of the clearing loops.\<close>

definition delete_if_decimated :: "project \<Rightarrow> int \<Rightarrow> error + project" where
  "delete_if_decimated p j =
     (case isDecimatedFrame p j of
        Inl e \<Rightarrow> Inl e
      | Inr decimated \<Rightarrow> if decimated then deleteDecimatedFrame p j else Inr p)"

text \<open>The loop over the cycles \<open>first_cycle .. last_cycle\<close>, with the state \<open>(drop, project)\<close> (\<open>drop_offset\<close> here).\<close>

fun cycles_loop ::
    "int \<Rightarrow> int \<Rightarrow> int \<Rightarrow> DropDuplicate \<Rightarrow> int \<Rightarrow> int \<Rightarrow> int list \<Rightarrow> int \<Rightarrow> project \<Rightarrow> error + project" where
  "cycles_loop section_start section_end first_duplicate drop_duplicate first_cycle last_cycle [] drop_offset p =
     Inr p"
| "cycles_loop section_start section_end first_duplicate drop_duplicate first_cycle last_cycle (i # is) drop_offset p =
     (case (if drop_duplicate = DropUglierDuplicatePerCycle
            then per_cycle_drop p section_start section_end first_duplicate first_cycle last_cycle i drop_offset
            else Inr (Some drop_offset)) of
        Inl e \<Rightarrow> Inl e
      | Inr None \<Rightarrow>
          cycles_loop section_start section_end first_duplicate drop_duplicate first_cycle last_cycle is drop_offset p
      | Inr (Some drop_offset) \<Rightarrow>
          (case (if i = first_cycle then for_frames delete_if_decimated [section_start..(i + 1) * 5 - 1] p
                 else if i = last_cycle then for_frames delete_if_decimated [i * 5..section_end - 1] p
                 else clearDecimatedFramesFromCycle p (i * 5)) of
             Inl e \<Rightarrow> Inl e
           | Inr p' \<Rightarrow>
               (case (if i * 5 + drop_offset \<ge> section_start \<and> i * 5 + drop_offset < section_end
                      then addDecimatedFrame p' (i * 5 + drop_offset) else Inr p') of
                  Inl e \<Rightarrow> Inl e
                | Inr p'' \<Rightarrow>
                    cycles_loop section_start section_end first_duplicate drop_duplicate
                      first_cycle last_cycle is drop_offset p'')))"

definition applyPatternGuessingDecimation ::
    "project \<Rightarrow> int \<Rightarrow> int \<Rightarrow> int \<Rightarrow> DropDuplicate \<Rightarrow> error + project" where
  "applyPatternGuessingDecimation p section_start section_end first_duplicate drop_duplicate =
     (let drop_duplicate =
            (if drop_duplicate = DropUglierDuplicatePerCycle \<and> first_duplicate = 4
             then DropUglierDuplicatePerSection else drop_duplicate)
      in case (case drop_duplicate of
                 DropUglierDuplicatePerSection \<Rightarrow>
                   (case count_uglier p first_duplicate
                           [section_start..min section_end (num_frames_source p - 1) - 1] (0, 0) of
                      Inl e \<Rightarrow> Inl e
                    | Inr (drop_n, drop_c) \<Rightarrow>
                        Inr (if drop_n > drop_c then first_duplicate else (first_duplicate + 1) mod 5))
               | DropFirstDuplicate \<Rightarrow> Inr first_duplicate
               | DropSecondDuplicate \<Rightarrow> Inr ((first_duplicate + 1) mod 5)
               | DropUglierDuplicatePerCycle \<Rightarrow> Inr (- 1)) of
           Inl e \<Rightarrow> Inl e
         | Inr drop_offset \<Rightarrow>
             (case cycles_loop section_start section_end first_duplicate drop_duplicate
                     (section_start div 5) ((section_end - 1) div 5)
                     [section_start div 5..(section_end - 1) div 5] drop_offset p of
                Inl e \<Rightarrow> Inl e
              | Inr p' \<Rightarrow> Inr (setModified True p')))"

subsection \<open>Guessing the pattern of a section from the mics\<close>

definition setMics :: "project \<Rightarrow> int \<Rightarrow> int \<Rightarrow> int \<Rightarrow> int \<Rightarrow> int \<Rightarrow> int \<Rightarrow> error + project" where
  "setMics p frame mic_p mic_c mic_n mic_b mic_u =
     (if frame < 0 \<or> frame \<ge> num_frames_source p then Inl OutOfRange
      else
        let ms = (if mics p = [] then replicate (nat (num_frames_source p)) [0, 0, 0, 0, 0]
                  else mics p)
        in if nat frame < length ms
           then Inr (p\<lparr>mics := ms[nat frame := [mic_p, mic_c, mic_n, mic_b, mic_u]]\<rparr>)
           else Inl UndefinedBehaviour)"

text \<open>
  The local \<open>struct Pattern\<close> and the constants \<open>PatternCCCNN\<close>, \<open>PatternCCNNN\<close>,
  \<open>PatternCCCCC\<close> and \<open>INT_MAX\<close>. The sum \<open>mic_dev\<close> is an \<open>int\<close> in the source; a
  term of it is at most 65535, and the model keeps the sum as a mathematical integer.
\<close>

record Pattern =
  pattern :: string
  pattern_offset :: int
  mic_dev :: int

definition INT_MAX :: int where
  "INT_MAX = 2147483647"

definition record_failure :: "project \<Rightarrow> int \<Rightarrow> PatternGuessingFailureReason \<Rightarrow> project" where
  "record_failure p section_start reason =
     setModified True
       (p\<lparr>pattern_guessing := (pattern_guessing p)
            \<lparr>pg_failures := (pg_failures (pattern_guessing p))
               (section_start \<mapsto> \<lparr>failure_start = section_start, failure_reason = reason\<rparr>)\<rparr>\<rparr>)"

text \<open>The innermost loop: \<open>mic_dev\<close> of one pattern at one offset, over the frames of the section.\<close>

fun mic_dev_loop :: "project \<Rightarrow> string \<Rightarrow> int \<Rightarrow> int list \<Rightarrow> int \<Rightarrow> error + int" where
  "mic_dev_loop p pat offset [] dev = Inr dev"
| "mic_dev_loop p pat offset (frame # frames) dev =
     (case string_at pat ((frame + offset) mod int (length pat)) of
        Inl e \<Rightarrow> Inl e
      | Inr pattern_match \<Rightarrow>
          (let other_match = (if pattern_match = CHR ''c'' then CHR ''n'' else CHR ''c'')
           in case mic_of p frame pattern_match of
                Inl e \<Rightarrow> Inl e
              | Inr mic_pattern_match \<Rightarrow>
                  (case mic_of p frame other_match of
                     Inl e \<Rightarrow> Inl e
                   | Inr mic_other_match \<Rightarrow>
                       mic_dev_loop p pat offset frames
                         (dev + max 0 (mic_pattern_match - mic_other_match)))))"

text \<open>The loop over the offsets of one pattern, which keeps the first smallest \<open>mic_dev\<close>.\<close>

fun offsets_loop :: "project \<Rightarrow> int list \<Rightarrow> int list \<Rightarrow> Pattern \<Rightarrow> error + Pattern" where
  "offsets_loop p frames [] pat = Inr pat"
| "offsets_loop p frames (offset # offsets) pat =
     (case mic_dev_loop p (pattern pat) offset frames 0 of
        Inl e \<Rightarrow> Inl e
      | Inr dev \<Rightarrow>
          offsets_loop p frames offsets
            (if dev < mic_dev pat then pat\<lparr>pattern_offset := offset, mic_dev := dev\<rparr> else pat))"

text \<open>
  The loop over the patterns, with the state \<open>(patterns, best_mic_dev, best_pattern)\<close>;
  \<open>k\<close> is the index \<open>p\<close> of the source.
\<close>

fun patterns_loop ::
    "project \<Rightarrow> int \<Rightarrow> int list \<Rightarrow> nat list \<Rightarrow> Pattern list \<times> int \<times> int \<Rightarrow> error + Pattern list \<times> int \<times> int" where
  "patterns_loop p use_patterns frames [] state = Inr state"
| "patterns_loop p use_patterns frames (k # ks) (patterns, best_mic_dev, best_pattern) =
     (if (pattern (patterns ! k) = ''cccnn'' \<and> and use_patterns 1 = 0)
         \<or> (pattern (patterns ! k) = ''ccnnn'' \<and> and use_patterns 2 = 0)
         \<or> (pattern (patterns ! k) = ''c'' \<and> and use_patterns 4 = 0)
      then patterns_loop p use_patterns frames ks (patterns, best_mic_dev, best_pattern)
      else case offsets_loop p frames [0..int (length (pattern (patterns ! k))) - 1] (patterns ! k) of
             Inl e \<Rightarrow> Inl e
           | Inr pat \<Rightarrow>
               patterns_loop p use_patterns frames ks
                 (if mic_dev pat < best_mic_dev then (patterns[k := pat], mic_dev pat, int k)
                  else (patterns[k := pat], best_mic_dev, best_pattern)))"

text \<open>The loop that writes the matches of the section.\<close>

definition pattern_match_step :: "Pattern \<Rightarrow> project \<Rightarrow> int \<Rightarrow> error + project" where
  "pattern_match_step pat p i =
     (case string_at (pattern pat) ((i + pattern_offset pat) mod int (length (pattern pat))) of
        Inl e \<Rightarrow> Inl e
      | Inr c \<Rightarrow> setMatch p i c)"

text \<open>
  What follows the choice of the pattern: the matches, the two corrections of the last
  match of the section, and the decimation.
\<close>

definition apply_guessed_pattern ::
    "project \<Rightarrow> int \<Rightarrow> int \<Rightarrow> Pattern \<Rightarrow> DropDuplicate \<Rightarrow> error + project" where
  "apply_guessed_pattern p section_start section_end pat drop_duplicate =
     (case for_frames (pattern_match_step pat) [section_start..section_end - 1] p of
        Inl e \<Rightarrow> Inl e
      | Inr p1 \<Rightarrow>
     (case (if section_end = num_frames_source p1
            then (case getMatch p1 (section_end - 1) of
                    Inl e \<Rightarrow> Inl e
                  | Inr m \<Rightarrow> if m = CHR ''n'' then setMatch p1 (section_end - 1) CHR ''b'' else Inr p1)
            else Inr p1) of
        Inl e \<Rightarrow> Inl e
      | Inr p2 \<Rightarrow>
     (case getMatch p2 (section_end - 1) of
        Inl e \<Rightarrow> Inl e
      | Inr match_index \<Rightarrow>
     (case (if match_index = CHR ''n''
            then (case mic_of p2 (section_end - 1) CHR ''n'' of
                    Inl e \<Rightarrow> Inl e
                  | Inr mic_n \<Rightarrow>
                      (case mic_of p2 (section_end - 1) CHR ''b'' of
                         Inl e \<Rightarrow> Inl e
                       | Inr mic_b \<Rightarrow>
                           if mic_n > mic_b * 2 then setMatch p2 (section_end - 1) CHR ''b''
                           else Inr p2))
            else Inr p2) of
        Inl e \<Rightarrow> Inl e
      | Inr p3 \<Rightarrow>
          if pattern pat = ''c''
          then for_frames deleteDecimatedFrame [section_start..section_end - 1] p3
          else applyPatternGuessingDecimation p3 section_start section_end
                 (4 - pattern_offset pat) drop_duplicate))))"

text \<open>
  \<open>guessSectionPatternsFromMics\<close> returns its boolean together with the project.
  \<open>patterns[best_pattern]\<close> with \<open>best_pattern = -1\<close> (no pattern enabled) is an access
  outside the vector.
\<close>

definition guessSectionPatternsFromMics ::
    "project \<Rightarrow> int \<Rightarrow> int \<Rightarrow> int \<Rightarrow> DropDuplicate \<Rightarrow> error + bool \<times> project" where
  "guessSectionPatternsFromMics p section_start minimum_length use_patterns drop_duplicate =
     (if mics p = [] then Inl NoMics
      else if section_start < 0 \<or> section_start \<ge> num_frames_source p then Inl OutOfRange
      else if \<not> sections_count (sections p) section_start then Inl NoSuchSection
      else case getSectionEnd p section_start of
        Inl e \<Rightarrow> Inl e
      | Inr section_end \<Rightarrow>
          if section_end - section_start - 1 < minimum_length
          then Inr (False, record_failure p section_start SectionTooShort)
          else
            (case patterns_loop p use_patterns [section_start..section_end - 2] [0, 1, 2]
                    ([\<lparr>pattern = ''cccnn'', pattern_offset = - 1, mic_dev = INT_MAX\<rparr>,
                      \<lparr>pattern = ''ccnnn'', pattern_offset = - 1, mic_dev = INT_MAX\<rparr>,
                      \<lparr>pattern = ''c'', pattern_offset = - 1, mic_dev = INT_MAX\<rparr>],
                     INT_MAX, - 1) of
               Inl e \<Rightarrow> Inl e
             | Inr (patterns, best_mic_dev, best_pattern) \<Rightarrow>
                 if best_pattern < 0 \<or> nat best_pattern \<ge> length patterns then Inl UndefinedBehaviour
                 else if mic_dev (patterns ! nat best_pattern) > section_end - section_start - 1
                 then Inr (False, record_failure p section_start AmbiguousMatchPattern)
                 else
                   (case apply_guessed_pattern p section_start section_end
                           (patterns ! nat best_pattern) drop_duplicate of
                      Inl e \<Rightarrow> Inl e
                    | Inr p' \<Rightarrow>
                        Inr (True,
                             setModified True
                               (p'\<lparr>pattern_guessing := (pattern_guessing p')
                                    \<lparr>pg_failures :=
                                       (pg_failures (pattern_guessing p'))(section_start := None)\<rparr>\<rparr>)))))"

subsection \<open>Reading the filter parameters of a project document\<close>

text \<open>
  A value of the JSON document as the parser yields it. A number written as an
  integer is \<open>JInt\<close>, one written with a fraction or an exponent is \<open>JDouble\<close> and
  carries the real number its double denotes. \<open>IsInt\<close> holds of the integers that fit
  \<open>int\<close>, \<open>IsNumber\<close> of every number, \<open>IsDouble\<close> only of \<open>JDouble\<close>;
  \<open>GetDouble\<close> of an integer is the integer (a 64-bit integer beyond \<open>2^53\<close> is
  rounded by the parser, which the model leaves out).
\<close>

datatype json =
    JNull
  | JBool bool
  | JInt int
  | JDouble real
  | JString string
  | JArray "json list"
  | JObject "(string \<times> json) list"

datatype JSONParameterTypes = JSONParamInt | JSONParamDouble | JSONParamBool

definition IsNumber :: "json \<Rightarrow> bool" where
  "IsNumber v = (case v of JInt i \<Rightarrow> True | JDouble d \<Rightarrow> True | _ \<Rightarrow> False)"

definition IsInt :: "json \<Rightarrow> bool" where
  "IsInt v = (case v of JInt i \<Rightarrow> - 2147483648 \<le> i \<and> i \<le> 2147483647 | _ \<Rightarrow> False)"

definition IsDouble :: "json \<Rightarrow> bool" where
  "IsDouble v = (case v of JDouble d \<Rightarrow> True | _ \<Rightarrow> False)"

definition IsBool :: "json \<Rightarrow> bool" where
  "IsBool v = (case v of JBool b \<Rightarrow> True | _ \<Rightarrow> False)"

definition GetDouble :: "json \<Rightarrow> real" where
  "GetDouble v = (case v of JInt i \<Rightarrow> real_of_int i | JDouble d \<Rightarrow> d | _ \<Rightarrow> 0)"

definition GetBool :: "json \<Rightarrow> bool" where
  "GetBool v = (case v of JBool b \<Rightarrow> b | _ \<Rightarrow> False)"

definition GetInt64 :: "json \<Rightarrow> int" where
  "GetInt64 v = (case v of JInt i \<Rightarrow> i | _ \<Rightarrow> 0)"

definition FindMember :: "(string \<times> json) list \<Rightarrow> string \<Rightarrow> json option" where
  "FindMember members key = map_of members key"

text \<open>
  The cast \<open>(int)d\<close> of a double truncates toward zero; it is undefined when the
  truncated value does not fit \<open>int\<close>.
\<close>

definition double_to_int :: "real \<Rightarrow> int option" where
  "double_to_int d =
     (let t = (if d \<ge> 0 then \<lfloor>d\<rfloor> else \<lceil>d\<rceil>)
      in if - 2147483648 \<le> t \<and> t \<le> 2147483647 then Some t else None)"

text \<open>
  The three maps of the parameters of one filter (\<open>vfm_parameters_int\<close>,
  \<open>vfm_parameters_double\<close>, \<open>vfm_parameters_bool\<close>, and the same for VDecimate).
  \<open>insert\<close> on a \<open>std::map\<close> keeps the value of a key that is already there.
\<close>

record parameters =
  parameters_int :: "string \<rightharpoonup> int"
  parameters_double :: "string \<rightharpoonup> real"
  parameters_bool :: "string \<rightharpoonup> bool"

definition map_insert :: "('k \<rightharpoonup> 'v) \<Rightarrow> 'k \<Rightarrow> 'v \<Rightarrow> ('k \<rightharpoonup> 'v)" where
  "map_insert m k v = (if m k = None then m(k \<mapsto> v) else m)"

text \<open>The body of the loop over \<open>valid_parameters\<close>, the same in both blocks of \<open>readProject\<close>.\<close>

definition read_parameter ::
    "int \<Rightarrow> (string \<times> json) list \<Rightarrow> parameters \<Rightarrow> string \<times> JSONParameterTypes \<Rightarrow> error + parameters" where
  "read_parameter project_format_version members ps valid_parameter =
     (case FindMember members (fst valid_parameter) of
        None \<Rightarrow> Inr ps
      | Some v \<Rightarrow>
          if project_format_version = 2 then
            (if \<not> IsNumber v then Inl ParseError
             else if snd valid_parameter = JSONParamBool then
               Inr (ps\<lparr>parameters_bool :=
                          map_insert (parameters_bool ps) (fst valid_parameter) (GetDouble v \<noteq> 0)\<rparr>)
             else if snd valid_parameter = JSONParamInt then
               (case double_to_int (GetDouble v) of
                  None \<Rightarrow> Inl UndefinedBehaviour
                | Some i \<Rightarrow>
                    Inr (ps\<lparr>parameters_int := map_insert (parameters_int ps) (fst valid_parameter) i\<rparr>))
             else if snd valid_parameter = JSONParamDouble then
               Inr (ps\<lparr>parameters_double :=
                          map_insert (parameters_double ps) (fst valid_parameter) (GetDouble v)\<rparr>)
             else Inr ps)
          else
            (if snd valid_parameter = JSONParamBool \<and> IsBool v then
               Inr (ps\<lparr>parameters_bool :=
                          map_insert (parameters_bool ps) (fst valid_parameter) (GetBool v)\<rparr>)
             else if snd valid_parameter = JSONParamInt \<and> IsInt v then
               Inr (ps\<lparr>parameters_int :=
                          map_insert (parameters_int ps) (fst valid_parameter) (GetInt64 v)\<rparr>)
             else if snd valid_parameter = JSONParamDouble \<and> IsDouble v then
               Inr (ps\<lparr>parameters_double :=
                          map_insert (parameters_double ps) (fst valid_parameter) (GetDouble v)\<rparr>)
             else Inl ParseError))"

fun read_parameters ::
    "int \<Rightarrow> (string \<times> json) list \<Rightarrow> (string \<times> JSONParameterTypes) list \<Rightarrow> parameters \<Rightarrow> error + parameters" where
  "read_parameters project_format_version members [] ps = Inr ps"
| "read_parameters project_format_version members (valid_parameter # valid_parameters) ps =
     (case read_parameter project_format_version members ps valid_parameter of
        Inl e \<Rightarrow> Inl e
      | Inr ps' \<Rightarrow> read_parameters project_format_version members valid_parameters ps')"

definition vfm_valid_parameters :: "(string \<times> JSONParameterTypes) list" where
  "vfm_valid_parameters =
     [(''order'', JSONParamInt), (''cthresh'', JSONParamInt), (''mi'', JSONParamInt),
      (''blockx'', JSONParamInt), (''blocky'', JSONParamInt), (''y0'', JSONParamInt),
      (''y1'', JSONParamInt), (''micmatch'', JSONParamInt), (''scthresh'', JSONParamDouble),
      (''chroma'', JSONParamBool), (''mchroma'', JSONParamBool)]"

definition vdecimate_valid_parameters :: "(string \<times> JSONParameterTypes) list" where
  "vdecimate_valid_parameters =
     [(''blockx'', JSONParamInt), (''blocky'', JSONParamInt), (''dupthresh'', JSONParamDouble),
      (''scthresh'', JSONParamDouble), (''chroma'', JSONParamBool)]"

text \<open>
  The two blocks of \<open>readProject\<close>, on the document root \<open>json_project\<close>, the format
  version read before, and the parameter maps of the project. A key that is absent
  leaves the maps as they are; a value that is not an object is refused by
  \<open>CHECK_OBJECT\<close>.
\<close>

definition readProject_vfm_parameters :: "int \<Rightarrow> (string \<times> json) list \<Rightarrow> parameters \<Rightarrow> error + parameters" where
  "readProject_vfm_parameters project_format_version json_project ps =
     (case FindMember json_project ''vfm parameters'' of
        None \<Rightarrow> Inr ps
      | Some (JObject json_vfm_parameters) \<Rightarrow>
          read_parameters project_format_version json_vfm_parameters vfm_valid_parameters ps
      | Some _ \<Rightarrow> Inl ParseError)"

definition readProject_vdecimate_parameters ::
    "int \<Rightarrow> (string \<times> json) list \<Rightarrow> parameters \<Rightarrow> error + parameters" where
  "readProject_vdecimate_parameters project_format_version json_project ps =
     (case FindMember json_project ''vdecimate parameters'' of
        None \<Rightarrow> Inr ps
      | Some (JObject json_vdecimate_parameters) \<Rightarrow>
          read_parameters project_format_version json_vdecimate_parameters
            vdecimate_valid_parameters ps
      | Some _ \<Rightarrow> Inl ParseError)"

subsection \<open>The decimation invariant and the scenarios of the properties\<close>

text \<open>
  Invariant 1 of the data model: the number of frames after decimation is the number of
  source frames minus the dropped offsets of all cycles.
\<close>

definition total_dropped :: "project \<Rightarrow> int" where
  "total_dropped p = sum_list (map (\<lambda>cycle. int (card cycle)) (decimated_frames p))"

definition decimation_invariant :: "project \<Rightarrow> bool" where
  "decimation_invariant p \<longleftrightarrow> num_frames_decimated p = num_frames_source p - total_dropped p"

text \<open>
  A new project of ten frames: \<open>commit\<close>, \<open>addDecimatedFrame(0)\<close>, \<open>commit\<close>, \<open>undo\<close>.
\<close>

definition undo_scenario :: project where
  "undo_scenario =
     undo (commit (projr (addDecimatedFrame (commit (projr (new_project 10 100)) ''open'') 0))
             ''decimate'')"

text \<open>
  A new project of ten frames with the preset \<open>A\<close>, assigned twice to the section at 0.
\<close>

definition duplicate_preset_project :: project where
  "duplicate_preset_project =
     projr (setSectionPreset
       (projr (setSectionPreset (projr (addPreset (projr (new_project 10 100)) ''A'' '''')) 0 ''A''))
       0 ''A'')"

text \<open>A new project of ten frames in which the frames 0, 1, 2 and 3 are decimated.\<close>

definition full_cycle_project :: project where
  "full_cycle_project =
     projr (addDecimatedFrame (projr (addDecimatedFrame (projr (addDecimatedFrame
       (projr (addDecimatedFrame (projr (new_project 10 100)) 0)) 1)) 2)) 3)"

text \<open>
  An edit for the undo law, \<open>setMatch(0, 'n')\<close>, and a project that has been
  committed once before.
\<close>

definition example_edit :: "project \<Rightarrow> project" where
  "example_edit q = projr (setMatch q 0 CHR ''n'')"

definition committed_project :: project where
  "committed_project = commit (projr (new_project 5 100)) ''earlier''"

subsection \<open>The statements about the parameters of a document\<close>

text \<open>
  What the specification calls an exact match of the JSON type of a value with the
  declared type of a parameter: a boolean for \<open>bool\<close>, an integer (one that fits
  \<open>int\<close>) for \<open>int\<close>, a number written as a double for \<open>double\<close>.
\<close>

fun json_type_matches :: "JSONParameterTypes \<Rightarrow> json \<Rightarrow> bool" where
  "json_type_matches JSONParamBool (JBool b) = True"
| "json_type_matches JSONParamInt (JInt i) = (- 2147483648 \<le> i \<and> i \<le> 2147483647)"
| "json_type_matches JSONParamDouble (JDouble d) = True"
| "json_type_matches t v = False"

text \<open>
  \<open>coerced ps k t v\<close>: the maps \<open>ps\<close> hold, for the key \<open>k\<close> of declared type \<open>t\<close>,
  the number \<open>v\<close> coerced to \<open>t\<close>: truncated toward zero for \<open>int\<close>, compared
  with zero for \<open>bool\<close>, as it is for \<open>double\<close>. \<open>coercible t v\<close>: \<open>v\<close> is a number,
  and if \<open>t\<close> is \<open>int\<close> its truncation fits \<open>int\<close>. \<open>fresh_key ps k\<close>: none of the
  maps has an entry for \<open>k\<close> yet, as in the project that \<open>readProject\<close> fills.
\<close>

definition coerced :: "parameters \<Rightarrow> string \<Rightarrow> JSONParameterTypes \<Rightarrow> json \<Rightarrow> bool" where
  "coerced ps k t v \<longleftrightarrow>
     (t = JSONParamInt \<longrightarrow> parameters_int ps k = double_to_int (GetDouble v)) \<and>
     (t = JSONParamBool \<longrightarrow> parameters_bool ps k = Some (GetDouble v \<noteq> 0)) \<and>
     (t = JSONParamDouble \<longrightarrow> parameters_double ps k = Some (GetDouble v))"

definition coercible :: "JSONParameterTypes \<Rightarrow> json \<Rightarrow> bool" where
  "coercible t v \<longleftrightarrow> IsNumber v \<and> (t = JSONParamInt \<longrightarrow> double_to_int (GetDouble v) \<noteq> None)"

definition fresh_key :: "parameters \<Rightarrow> string \<Rightarrow> bool" where
  "fresh_key ps k \<longleftrightarrow>
     parameters_int ps k = None \<and> parameters_double ps k = None \<and> parameters_bool ps k = None"

definition same_at :: "parameters \<Rightarrow> parameters \<Rightarrow> string \<Rightarrow> bool" where
  "same_at ps ps' k \<longleftrightarrow>
     parameters_int ps' k = parameters_int ps k \<and> parameters_double ps' k = parameters_double ps k \<and>
     parameters_bool ps' k = parameters_bool ps k"

text \<open>
  The scenario S7 of the specification: \<open>order\<close> is \<open>1.0\<close> and \<open>chroma\<close> is \<open>0.0\<close>.
\<close>

definition empty_parameters :: parameters where
  "empty_parameters =
     \<lparr>parameters_int = Map.empty, parameters_double = Map.empty, parameters_bool = Map.empty\<rparr>"

definition example_document :: "(string \<times> json) list" where
  "example_document =
     [(''vfm parameters'', JObject [(''order'', JDouble 1), (''chroma'', JDouble 0)]),
      (''vdecimate parameters'', JObject [(''blockx'', JDouble 32), (''dupthresh'', JInt 1)])]"

text \<open>A version 2 document whose \<open>order\<close> is the JSON number 3000000000.\<close>

definition out_of_range_document :: "(string \<times> json) list" where
  "out_of_range_document = [(''vfm parameters'', JObject [(''order'', JInt 3000000000)])]"

text \<open>
  A project of seven frames with sections at 0 and at 5 and with mics (all zero).
\<close>

definition short_last_section_project :: project where
  "short_last_section_project =
     projr (setMics (projr (addSection (projr (new_project 7 100)) 5)) 0 0 0 0 0 0)"

subsection \<open>The statement about the matches of a range\<close>

text \<open>
  The words of the specification for \<open>set_range_matches_from_pattern\<close>, with the
  period 5 of the code: the candidate of frame \<open>i\<close> is \<open>pattern[i mod 5]\<close>; frame 0
  is skipped when the candidate is \<open>p\<close> or \<open>b\<close>, the last source frame when it is
  \<open>u\<close>; at the last source frame and at the end of the range a candidate \<open>n\<close> is
  stored as \<open>b\<close>, which \<open>setMatch\<close> turns back into \<open>n\<close> when that frame is frame 0.
  \<open>allocated_matches\<close> is the array a first write allocates, and \<open>pattern_matches\<close>
  the array after the frames of a set have been visited.
\<close>

definition candidate :: "string \<Rightarrow> int \<Rightarrow> char" where
  "candidate pat i = pat ! nat (i mod 5)"

definition skipped :: "int \<Rightarrow> string \<Rightarrow> int \<Rightarrow> bool" where
  "skipped n pat i \<longleftrightarrow>
     (i = 0 \<and> (candidate pat i = CHR ''p'' \<or> candidate pat i = CHR ''b'')) \<or>
     (i = n - 1 \<and> candidate pat i = CHR ''u'')"

definition stored_match :: "int \<Rightarrow> int \<Rightarrow> string \<Rightarrow> int \<Rightarrow> char" where
  "stored_match n range_end pat i =
     (if (i = n - 1 \<or> i = range_end) \<and> candidate pat i = CHR ''n''
      then (if i = 0 then CHR ''n'' else CHR ''b'')
      else candidate pat i)"

definition allocated_matches :: "project \<Rightarrow> string" where
  "allocated_matches p =
     (if matches p = [] then replicate (nat (num_frames_source p)) CHR ''c'' else matches p)"

definition pattern_matches :: "project \<Rightarrow> int set \<Rightarrow> int \<Rightarrow> string \<Rightarrow> string" where
  "pattern_matches p frames range_end pat =
     (if \<forall>i \<in> frames. skipped (num_frames_source p) pat i then matches p
      else map (\<lambda>j. if int j \<in> frames \<and> \<not> skipped (num_frames_source p) pat (int j)
                     then stored_match (num_frames_source p) range_end pat (int j)
                     else allocated_matches p ! j)
             [0..<nat (num_frames_source p)])"

subsection \<open>The statement about the frame numbers\<close>

text \<open>
  The frames that survive decimation, in order, as the cycles from cycle \<open>i\<close> on give
  them: the frame-number conversions are stated and proved against this list.
\<close>

fun kept_frames :: "int set list \<Rightarrow> int \<Rightarrow> int list" where
  "kept_frames [] i = []"
| "kept_frames (d # ds) i =
     map (\<lambda>offset. i * 5 + offset) (filter (\<lambda>offset. offset \<notin> d) [0..4])
     @ kept_frames ds (i + 1)"

text \<open>
  The state of the decimation that the constructor establishes and the editing
  operations keep: every source frame has its cycle, every dropped offset is one of
  \<open>0..4\<close> and names a source frame, and invariant 1 holds.
\<close>

definition decimation_wf :: "project \<Rightarrow> bool" where
  "decimation_wf p \<longleftrightarrow>
     num_frames_source p \<le> 5 * int (length (decimated_frames p)) \<and>
     (\<forall>k < length (decimated_frames p). \<forall>offset \<in> decimated_frames p ! k.
         0 \<le> offset \<and> offset < 5 \<and> int k * 5 + offset < num_frames_source p) \<and>
     decimation_invariant p"

text \<open>The scenario S1 of the specification: ten frames, of which 1 and 6 are decimated.\<close>

definition telecine_project :: project where
  "telecine_project =
     projr (addDecimatedFrame (projr (addDecimatedFrame (projr (new_project 10 100)) 1)) 6)"

section \<open>Properties\<close>

text \<open>The definitions that evaluate the constructor on a concrete number of frames.\<close>

lemma replicate_numeral: "replicate (numeral k) x = x # replicate (pred_numeral k) x"
  by (simp add: numeral_eq_Suc)

lemmas project_eval =
  new_project_def addSection_def setModified_def cpp_div_def replicate_numeral

subsection \<open>C3: \<open>setMatch\<close> coerces at the first and the last frame\<close>

text \<open>
  C3 (as amended). In a project with at least two source frames whose \<open>matches\<close>
  array is empty or has one entry per source frame: \<open>setMatch(0, 'b')\<close> stores
  \<open>'n'\<close>, \<open>setMatch(0, 'p')\<close> stores \<open>'u'\<close>, \<open>setMatch(last, 'n')\<close> stores
  \<open>'b'\<close>, \<open>setMatch(last, 'u')\<close> stores \<open>'p'\<close>, a character outside
  \<open>{p, c, n, b, u}\<close> is refused with \<open>InvalidMatchChar\<close> at every frame in range,
  and if the array was empty or obeyed the boundary rule before a successful call, then
  after it \<open>matches[0]\<close> is neither \<open>b\<close> nor \<open>p\<close> and \<open>matches[last]\<close> is neither
  \<open>n\<close> nor \<open>u\<close>.
\<close>

theorem setMatch_boundary_coercion:
  assumes N: "2 \<le> num_frames_source p"
    and len: "matches p = [] \<or> length (matches p) = nat (num_frames_source p)"
  shows "(\<exists>p'. setMatch p 0 CHR ''b'' = Inr p' \<and> matches p' ! 0 = CHR ''n'') \<and>
         (\<exists>p'. setMatch p 0 CHR ''p'' = Inr p' \<and> matches p' ! 0 = CHR ''u'') \<and>
         (\<exists>p'. setMatch p (num_frames_source p - 1) CHR ''n'' = Inr p' \<and>
               matches p' ! nat (num_frames_source p - 1) = CHR ''b'') \<and>
         (\<exists>p'. setMatch p (num_frames_source p - 1) CHR ''u'' = Inr p' \<and>
               matches p' ! nat (num_frames_source p - 1) = CHR ''p'') \<and>
         (\<forall>f x. 0 \<le> f \<and> f < num_frames_source p \<and> \<not> isValidMatchChar x \<longrightarrow>
               setMatch p f x = Inl InvalidMatchChar) \<and>
         (\<forall>f x p'. (matches p = [] \<or>
                    (matches p ! 0 \<notin> {CHR ''b'', CHR ''p''} \<and>
                     matches p ! nat (num_frames_source p - 1) \<notin> {CHR ''n'', CHR ''u''})) \<and>
                  setMatch p f x = Inr p' \<longrightarrow>
               matches p' ! 0 \<notin> {CHR ''b'', CHR ''p''} \<and>
               matches p' ! nat (num_frames_source p - 1) \<notin> {CHR ''n'', CHR ''u''})"
proof -
  let ?N = "num_frames_source p"
  let ?ms = "if matches p = [] then replicate (nat ?N) CHR ''c'' else matches p"
  have lms: "length ?ms = nat ?N" using len by auto
  have pos: "0 < nat ?N" "nat (?N - 1) < nat ?N" "nat (?N - 1) \<noteq> 0" using N by auto
  have a: "\<exists>p'. setMatch p 0 CHR ''b'' = Inr p' \<and> matches p' ! 0 = CHR ''n''"
    using N lms pos by (auto simp: setMatch_def isValidMatchChar_def Let_def)
  have b: "\<exists>p'. setMatch p 0 CHR ''p'' = Inr p' \<and> matches p' ! 0 = CHR ''u''"
    using N lms pos by (auto simp: setMatch_def isValidMatchChar_def Let_def)
  have c: "\<exists>p'. setMatch p (?N - 1) CHR ''n'' = Inr p' \<and> matches p' ! nat (?N - 1) = CHR ''b''"
    using N lms pos by (auto simp: setMatch_def isValidMatchChar_def Let_def)
  have d: "\<exists>p'. setMatch p (?N - 1) CHR ''u'' = Inr p' \<and> matches p' ! nat (?N - 1) = CHR ''p''"
    using N lms pos by (auto simp: setMatch_def isValidMatchChar_def Let_def)
  have e: "\<forall>f x. 0 \<le> f \<and> f < ?N \<and> \<not> isValidMatchChar x \<longrightarrow> setMatch p f x = Inl InvalidMatchChar"
    by (auto simp: setMatch_def)
  have f: "matches p' ! 0 \<notin> {CHR ''b'', CHR ''p''} \<and>
           matches p' ! nat (?N - 1) \<notin> {CHR ''n'', CHR ''u''}"
    if pre: "matches p = [] \<or> (matches p ! 0 \<notin> {CHR ''b'', CHR ''p''} \<and>
                matches p ! nat (?N - 1) \<notin> {CHR ''n'', CHR ''u''})"
      and run: "setMatch p f x = Inr p'" for f x p'
  proof -
    have old: "?ms ! 0 \<notin> {CHR ''b'', CHR ''p''} \<and> ?ms ! nat (?N - 1) \<notin> {CHR ''n'', CHR ''u''}"
      using pre pos by auto
    from run have rng: "0 \<le> f" "f < ?N" and valid: "isValidMatchChar x"
      by (auto simp: setMatch_def split: if_splits)
    consider "f = 0" | "f = ?N - 1" | "f \<noteq> 0" "f \<noteq> ?N - 1" by blast
    then show ?thesis
    proof cases
      case 1
      with run old lms pos valid show ?thesis
        by (auto simp: setMatch_def isValidMatchChar_def Let_def nth_list_update split: if_splits)
    next
      case 2
      with run old lms pos valid N show ?thesis
        by (auto simp: setMatch_def isValidMatchChar_def Let_def nth_list_update split: if_splits)
    next
      case 3
      then have "nat f \<noteq> 0" "nat f \<noteq> nat (?N - 1)" using rng by auto
      with 3 run old lms pos valid show ?thesis
        by (auto simp: setMatch_def Let_def nth_list_update split: if_splits)
    qed
  qed
  from a b c d e f show ?thesis by blast
qed

text \<open>
  The witness of C3 is the scenario S2 of the specification: a new project with five
  source frames.
\<close>

theorem setMatch_boundary_coercion_witness:
  "2 \<le> num_frames_source (projr (new_project 5 0)) \<and>
   matches (projr (new_project 5 0)) = [] \<and>
   map_sum id matches (setMatch (projr (new_project 5 0)) 0 CHR ''b'') = Inr ''ncccc'' \<and>
   map_sum id matches (setMatch (projr (new_project 5 0)) 0 CHR ''p'') = Inr ''ucccc'' \<and>
   map_sum id matches (setMatch (projr (new_project 5 0)) 4 CHR ''n'') = Inr ''ccccb'' \<and>
   map_sum id matches (setMatch (projr (new_project 5 0)) 4 CHR ''u'') = Inr ''ccccp'' \<and>
   setMatch (projr (new_project 5 0)) 2 CHR ''x'' = Inl InvalidMatchChar \<and>
   matches (projr (setMatch (projr (new_project 5 0)) 4 CHR ''n'')) ! 0 \<notin> {CHR ''b'', CHR ''p''} \<and>
   matches (projr (setMatch (projr (new_project 5 0)) 4 CHR ''n'')) ! 4 \<notin> {CHR ''n'', CHR ''u''}"
proof -
  let ?p = "projr (new_project 5 0)"
  have h1: "2 \<le> num_frames_source ?p" by (simp add: project_eval)
  have h2: "matches ?p = []" by (simp add: project_eval)
  have run: "setMatch ?p 4 CHR ''n'' = Inr (projr (setMatch ?p 4 CHR ''n''))"
    by (simp add: project_eval setMatch_def isValidMatchChar_def)
  have n: "nat (num_frames_source ?p - 1) = 4" by (simp add: project_eval)
  from setMatch_boundary_coercion [OF h1 disjI1 [OF h2]]
  have inv: "matches (projr (setMatch ?p 4 CHR ''n'')) ! 0 \<notin> {CHR ''b'', CHR ''p''} \<and>
             matches (projr (setMatch ?p 4 CHR ''n'')) ! 4 \<notin> {CHR ''n'', CHR ''u''}"
    using h2 run n by metis
  have ev: "map_sum id matches (setMatch ?p 0 CHR ''b'') = Inr ''ncccc'' \<and>
   map_sum id matches (setMatch ?p 0 CHR ''p'') = Inr ''ucccc'' \<and>
   map_sum id matches (setMatch ?p 4 CHR ''n'') = Inr ''ccccb'' \<and>
   map_sum id matches (setMatch ?p 4 CHR ''u'') = Inr ''ccccp''"
    by code_simp
  have bad: "setMatch ?p 2 CHR ''x'' = Inl InvalidMatchChar"
    by (simp add: project_eval setMatch_def isValidMatchChar_def)
  from h1 h2 inv ev bad show ?thesis by blast
qed

text \<open>
  Counterexample to C3 as stated: in a new project with a single source frame, frame 0
  is also the last frame, the rule of the first frame wins, and \<open>setMatch(0, 'n')\<close>
  leaves \<open>'n'\<close> in \<open>matches[num_frames_source - 1]\<close>.
\<close>

theorem setMatch_single_frame_counterexample:
  "map_sum id matches (setMatch (projr (new_project 1 0)) 0 CHR ''n'') = Inr ''n'' \<and>
   num_frames_source (projr (setMatch (projr (new_project 1 0)) 0 CHR ''n'')) - 1 = 0"
  by (simp add: project_eval setMatch_def isValidMatchChar_def)

subsection \<open>C8: \<open>addDecimatedFrame\<close> never fills a cycle\<close>

text \<open>
  C8. For a frame \<open>f\<close> in \<open>[0, num_frames_source)\<close> (whose cycle \<open>f / 5\<close> is in the
  vector of cycles): if the cycle already holds four dropped offsets,
  \<open>addDecimatedFrame(f)\<close> returns without an error and leaves the project as it is;
  otherwise it inserts \<open>f mod 5\<close> into \<open>decimated_frames[f / 5]\<close> and decrements
  \<open>num_frames_decimated\<close> by one exactly when the offset was not there before.
\<close>

theorem addDecimatedFrame_full_cycle:
  assumes "0 \<le> f" and "f < num_frames_source p"
    and "nat (f div 5) < length (decimated_frames p)"
  shows "\<exists>p'. addDecimatedFrame p f = Inr p' \<and>
           (card (decimated_frames p ! nat (f div 5)) = 4 \<longrightarrow> p' = p) \<and>
           (card (decimated_frames p ! nat (f div 5)) \<noteq> 4 \<longrightarrow>
              decimated_frames p' =
                (decimated_frames p)[nat (f div 5) :=
                   insert (f mod 5) (decimated_frames p ! nat (f div 5))] \<and>
              num_frames_decimated p' =
                (if f mod 5 \<in> decimated_frames p ! nat (f div 5) then num_frames_decimated p
                 else num_frames_decimated p - 1))"
  using assms
  by (auto simp: addDecimatedFrame_def setModified_def insert_absorb list_update_same_conv)

text \<open>
  The witness of C8: frame 4 of a project whose first cycle holds the offsets 0 to 3
  (nothing changes), and frame 7 of a new project (offset 2 of cycle 1 is inserted, and
  nine frames remain).
\<close>

lemma full_cycle_project_fields:
  "num_frames_source full_cycle_project = 10"
  "num_frames_decimated full_cycle_project = 6"
  "decimated_frames full_cycle_project = [{0, 1, 2, 3}, {}]"
  by (simp_all add: full_cycle_project_def project_eval addDecimatedFrame_def insert_commute)

theorem addDecimatedFrame_full_cycle_witness:
  "(0::int) \<le> 4 \<and> 4 < num_frames_source full_cycle_project \<and>
   nat (4 div 5) < length (decimated_frames full_cycle_project) \<and>
   card (decimated_frames full_cycle_project ! nat (4 div 5)) = 4 \<and>
   addDecimatedFrame full_cycle_project 4 = Inr full_cycle_project \<and>
   (0::int) \<le> 7 \<and> 7 < num_frames_source (projr (new_project 10 100)) \<and>
   nat (7 div 5) < length (decimated_frames (projr (new_project 10 100))) \<and>
   card (decimated_frames (projr (new_project 10 100)) ! nat (7 div 5)) \<noteq> 4 \<and>
   map_sum id decimated_frames (addDecimatedFrame (projr (new_project 10 100)) 7) = Inr [{}, {2}] \<and>
   map_sum id num_frames_decimated (addDecimatedFrame (projr (new_project 10 100)) 7) = Inr 9"
proof -
  let ?q = "projr (new_project 10 100)"
  have h: "(0::int) \<le> 4" "4 < num_frames_source full_cycle_project"
    "nat (4 div 5) < length (decimated_frames full_cycle_project)"
    by (simp_all add: full_cycle_project_fields)
  have full: "card (decimated_frames full_cycle_project ! nat (4 div 5)) = 4"
    by (simp add: full_cycle_project_fields)
  from addDecimatedFrame_full_cycle [OF h] full
  have a: "addDecimatedFrame full_cycle_project 4 = Inr full_cycle_project"
    by auto
  have k: "(0::int) \<le> 7" "7 < num_frames_source ?q"
    "nat (7 div 5) < length (decimated_frames ?q)"
    by (simp_all add: project_eval)
  have free: "card (decimated_frames ?q ! nat (7 div 5)) \<noteq> 4"
    by (simp add: project_eval)
  from addDecimatedFrame_full_cycle [OF k] free
  obtain p' where run: "addDecimatedFrame ?q 7 = Inr p'"
    and df: "decimated_frames p' =
       (decimated_frames ?q)[nat (7 div 5) := insert (7 mod 5) (decimated_frames ?q ! nat (7 div 5))]"
    and nf: "num_frames_decimated p' =
       (if 7 mod 5 \<in> decimated_frames ?q ! nat (7 div 5) then num_frames_decimated ?q
        else num_frames_decimated ?q - 1)"
    by blast
  have b: "map_sum id decimated_frames (addDecimatedFrame ?q 7) = Inr [{}, {2}]"
    using run df by (simp add: project_eval)
  have c: "map_sum id num_frames_decimated (addDecimatedFrame ?q 7) = Inr 9"
    using run nf by (simp add: project_eval)
  from h full a k free b c show ?thesis by blast
qed

subsection \<open>C10: renaming a preset to its own name\<close>

text \<open>
  C10. For every name \<open>a\<close>, whether or not a preset of that name exists,
  \<open>renamePreset(a, a)\<close> returns at once: it raises no error (in particular not the
  no-such-preset error) and the project is unchanged.
\<close>

theorem renamePreset_same_name:
  "renamePreset p a a = Inr p \<and> renamePreset p a a \<noteq> Inl NoSuchPreset"
  by (simp add: renamePreset_def)

subsection \<open>C1: the decimation invariant and \<open>undo\<close>\<close>

text \<open>
  The editing operations keep the invariant (the cycles are finite sets, as every
  \<open>std::set\<close> is).
\<close>

lemma sum_list_update_int:
  fixes f :: "'a \<Rightarrow> int"
  assumes "k < length xs"
  shows "sum_list (map f (xs[k := c])) = sum_list (map f xs) - f (xs ! k) + f c"
  using assms by (induction xs arbitrary: k) (auto split: nat.splits)

lemma addDecimatedFrame_invariant:
  assumes "decimation_invariant p" and "\<forall>c \<in> set (decimated_frames p). finite c"
    and "addDecimatedFrame p f = Inr p'"
  shows "decimation_invariant p'"
proof -
  have fin: "finite (decimated_frames p ! nat (f div 5))"
    if "nat (f div 5) < length (decimated_frames p)"
    using assms(2) that by simp
  show ?thesis
    using assms(1,3) fin
    by (auto simp: addDecimatedFrame_def decimation_invariant_def setModified_def
          total_dropped_def sum_list_update_int split: if_splits)
qed

lemma deleteDecimatedFrame_invariant:
  assumes "decimation_invariant p" and "\<forall>c \<in> set (decimated_frames p). finite c"
    and "deleteDecimatedFrame p f = Inr p'"
  shows "decimation_invariant p'"
proof -
  have fin: "finite (decimated_frames p ! nat (f div 5))"
    if "nat (f div 5) < length (decimated_frames p)"
    using assms(2) that by simp
  have pos: "int (card c - Suc 0) = int (card c) - 1" if "finite c" "x \<in> c"
    for c :: "int set" and x
  proof -
    from that have "0 < card c" by (auto simp: card_gt_0_iff)
    then show ?thesis by (simp add: of_nat_diff)
  qed
  show ?thesis
    using assms(1,3) fin
    by (auto simp: deleteDecimatedFrame_def decimation_invariant_def setModified_def
          total_dropped_def sum_list_update_int pos split: if_splits)
qed

lemma clearDecimatedFramesFromCycle_invariant:
  assumes "decimation_invariant p" and "clearDecimatedFramesFromCycle p f = Inr p'"
  shows "decimation_invariant p'"
  using assms
  by (auto simp: clearDecimatedFramesFromCycle_def decimation_invariant_def
        total_dropped_def sum_list_update_int split: if_splits)

text \<open>
  C1 (a defect of the code). \<open>restoreState\<close> puts \<open>decimated_frames\<close> back but not
  \<open>num_frames_decimated\<close>: in a new project of ten frames, after \<open>commit\<close>,
  \<open>addDecimatedFrame(0)\<close> and \<open>commit\<close> the invariant holds, and after \<open>undo\<close> no
  frame is decimated while \<open>num_frames_decimated\<close> is still 9.
\<close>

theorem undo_breaks_decimation_invariant:
  "decimation_invariant
     (commit (projr (addDecimatedFrame (commit (projr (new_project 10 100)) ''open'') 0)) ''decimate'')
   \<and> decimated_frames undo_scenario = [{}, {}]
   \<and> num_frames_source undo_scenario = 10
   \<and> num_frames_decimated undo_scenario = 9
   \<and> \<not> decimation_invariant undo_scenario"
  by (simp add: undo_scenario_def decimation_invariant_def total_dropped_def project_eval
        commit_def undo_def restoreState_def addDecimatedFrame_def)

subsection \<open>C4: \<open>deletePreset\<close> and a preset assigned twice\<close>

text \<open>
  C4 (a defect of the code). The loop of \<open>deletePreset\<close> erases the entry at \<open>j\<close> and
  then moves on to \<open>j + 1\<close>, so the entry that took the place of the erased one is
  never looked at: of the two entries \<open>A\<close> of the section one is left, although the
  preset itself is gone and \<open>isPresetInUse\<close> raises the no-such-preset error.
\<close>

theorem deletePreset_leaves_duplicate:
  "sections duplicate_preset_project = [\<lparr>sect_start = 0, sect_presets = [''A'', ''A'']\<rparr>] \<and>
   map_sum id sections (deletePreset duplicate_preset_project ''A'') =
     Inr [\<lparr>sect_start = 0, sect_presets = [''A'']\<rparr>] \<and>
   isPresetInUse (projr (deletePreset duplicate_preset_project ''A'')) ''A'' = Inl NoSuchPreset"
  by (simp add: duplicate_preset_project_def project_eval addPreset_def setSectionPreset_def
        presetExists_def isNameSafeForPython_def sections_count_def
        SectionsModel_appendSectionPreset_def deletePreset_def delete_in_sections_def
        SectionsModel_deleteSectionPreset_def isPresetInUse_def)

subsection \<open>C6: the undo law\<close>

text \<open>The loop that bounds the undo stack keeps its last \<open>undo_steps\<close> entries.\<close>

lemma pop_front_while_drop: "pop_front_while n xs = drop (length xs - n) xs"
proof (induction n xs rule: pop_front_while.induct)
  case (1 steps stack)
  show ?case
  proof (cases "length stack > steps")
    case True
    then have "stack \<noteq> []" by auto
    then obtain x xs where s: "stack = x # xs" by (cases stack) auto
    from True s have "Suc (length xs) - steps = Suc (length xs - steps)" by auto
    with 1 True s show ?thesis
      by (subst pop_front_while.simps) (simp add: drop_Suc del: pop_front_while.simps)
  next
    case False
    then show ?thesis by (subst pop_front_while.simps) simp
  qed
qed

lemma commit_stack:
  "undo_stack (commit p d) = drop (Suc (length (undo_stack p)) - undo_steps p)
      (undo_stack p @ [\<lparr>us_description = d,
                  us_matches = matches p,
                  us_decimated_frames = decimated_frames p,
                  us_pattern_guessing = pattern_guessing p,
                  us_presets = presets p,
                  us_custom_lists = custom_lists p,
                  us_combed_frames = combed_frames p,
                  us_frozen_frames = frozen_frames p,
                  us_sections = sections p,
                  us_bookmarks = bookmarks p\<rparr>])"
  by (simp add: commit_def pop_front_while_drop del: pop_front_while.simps)

lemma commit_fields:
  "undo_steps (commit p d) = undo_steps p" "redo_stack (commit p d) = []"
  "observable (commit p d) = observable p"
  by (simp_all add: commit_def observable_def Let_def)

text \<open>
  C6 (as amended). If the undo stack is empty before the first commit, or at most two
  undo steps are kept, then for every edit that leaves the undo stack and the number of
  undo steps alone, \<open>commit; edit; commit; undo; undo; redo\<close> ends in the same
  observable state (matches, decimated frames, pattern guessing, presets, custom lists,
  combed frames, frozen frames, sections, bookmarks) as \<open>commit; edit; commit\<close>; and
  \<open>undo\<close> changes nothing in a project whose undo stack holds at most one entry.
\<close>

theorem undo_law:
  assumes stack: "undo_stack p = [] \<or> undo_steps p \<le> 2"
    and e1: "undo_stack (e (commit p d1)) = undo_stack (commit p d1)"
    and e2: "undo_steps (e (commit p d1)) = undo_steps (commit p d1)"
  shows "observable (redo (undo (undo (commit (e (commit p d1)) d2)))) =
           observable (commit (e (commit p d1)) d2) \<and>
         (\<forall>q. length (undo_stack q) \<le> 1 \<longrightarrow> undo q = q)"
proof -
  let ?s0 = "\<lparr>us_description = d1,
                  us_matches = matches p,
                  us_decimated_frames = decimated_frames p,
                  us_pattern_guessing = pattern_guessing p,
                  us_presets = presets p,
                  us_custom_lists = custom_lists p,
                  us_combed_frames = combed_frames p,
                  us_frozen_frames = frozen_frames p,
                  us_sections = sections p,
                  us_bookmarks = bookmarks p\<rparr>"
  let ?p1 = "e (commit p d1)"
  let ?s1 = "\<lparr>us_description = d2,
                  us_matches = matches ?p1,
                  us_decimated_frames = decimated_frames ?p1,
                  us_pattern_guessing = pattern_guessing ?p1,
                  us_presets = presets ?p1,
                  us_custom_lists = custom_lists ?p1,
                  us_combed_frames = combed_frames ?p1,
                  us_frozen_frames = frozen_frames ?p1,
                  us_sections = sections ?p1,
                  us_bookmarks = bookmarks ?p1\<rparr>"
  let ?p2 = "commit ?p1 d2"
  have n: "undo_steps ?p1 = undo_steps p" using e2 by (simp add: commit_fields)
  have u1: "undo_stack ?p1 = drop (Suc (length (undo_stack p)) - undo_steps p) (undo_stack p @ [?s0])"
    using e1 by (simp add: commit_stack)
  have u2: "undo_stack ?p2 = drop (Suc (length (undo_stack ?p1)) - undo_steps p) (undo_stack ?p1 @ [?s1])"
    by (simp add: commit_stack n)
  have r2: "redo_stack ?p2 = []" by (simp add: commit_fields)
  have cases: "undo_stack ?p2 = [] \<or> undo_stack ?p2 = [?s1] \<or> undo_stack ?p2 = [?s0, ?s1]"
  proof -
    consider "undo_steps p = 0" | "undo_steps p = 1" | "undo_steps p = 2"
      | "undo_steps p \<ge> 3" "undo_stack p = []"
      using stack by force
    then show ?thesis
    proof cases
      case 1 then show ?thesis using u1 u2 by simp
    next
      case 2 then show ?thesis using u1 u2 by simp
    next
      case 3
      show ?thesis
      proof (cases "undo_stack p" rule: rev_cases)
        case Nil
        with 3 u1 u2 show ?thesis by simp
      next
        case (snoc us u)
        with 3 u1 have "undo_stack ?p1 = [u, ?s0]" by simp
        with 3 u2 show ?thesis by simp
      qed
    next
      case 4
      then have "undo_stack ?p1 = [?s0]" using u1 by simp
      with 4 u2 show ?thesis by (simp add: Suc_diff_le)
    qed
  qed
  have obs: "observable ?p2 = observable ?p1" by (simp add: commit_fields)
  have law: "observable (redo (undo (undo ?p2))) = observable ?p2"
    using cases
  proof (elim disjE)
    assume "undo_stack ?p2 = []"
    then show ?thesis using r2 by (simp add: undo_def redo_def)
  next
    assume "undo_stack ?p2 = [?s1]"
    then show ?thesis using r2 by (simp add: undo_def redo_def)
  next
    assume a: "undo_stack ?p2 = [?s0, ?s1]"
    then show ?thesis using r2 obs
      by (simp add: undo_def redo_def restoreState_def observable_def)
  qed
  have noop: "\<forall>q. length (undo_stack q) \<le> 1 \<longrightarrow> undo q = q"
    by (simp add: undo_def)
  from law noop show ?thesis by blast
qed

text \<open>
  The witness of C6: a new project of five frames, whose undo stack is empty, and the
  edit \<open>setMatch(0, 'n')\<close>.
\<close>

lemmas undo_eval =
  project_eval commit_def undo_def redo_def restoreState_def example_edit_def setMatch_def
  isValidMatchChar_def

theorem undo_law_witness:
  "undo_stack (projr (new_project 5 100)) = [] \<and>
   undo_stack (example_edit (commit (projr (new_project 5 100)) ''open'')) =
     undo_stack (commit (projr (new_project 5 100)) ''open'') \<and>
   undo_steps (example_edit (commit (projr (new_project 5 100)) ''open'')) =
     undo_steps (commit (projr (new_project 5 100)) ''open'') \<and>
   observable (redo (undo (undo
       (commit (example_edit (commit (projr (new_project 5 100)) ''open'')) ''edit'')))) =
     observable (commit (example_edit (commit (projr (new_project 5 100)) ''open'')) ''edit'') \<and>
   matches (commit (example_edit (commit (projr (new_project 5 100)) ''open'')) ''edit'') = ''ncccc'' \<and>
   length (undo_stack (projr (new_project 5 100))) \<le> 1 \<and>
   undo (projr (new_project 5 100)) = projr (new_project 5 100)"
proof -
  let ?p = "projr (new_project 5 100)"
  have h0: "undo_stack ?p = []" by (simp add: project_eval)
  have h1: "undo_stack (example_edit (commit ?p ''open'')) = undo_stack (commit ?p ''open'')"
    by (simp add: undo_eval)
  have h2: "undo_steps (example_edit (commit ?p ''open'')) = undo_steps (commit ?p ''open'')"
    by (simp add: undo_eval)
  have h: "undo_stack ?p = [] \<or> undo_steps ?p \<le> 2" using h0 by simp
  note law = undo_law [of ?p example_edit "''open''" "''edit''", OF h h1 h2]
  have m: "matches (commit (example_edit (commit ?p ''open'')) ''edit'') = ''ncccc''"
    by (simp add: undo_eval)
  have l: "length (undo_stack ?p) \<le> 1" using h0 by simp
  from law l have u: "undo ?p = ?p" by blast
  from h0 h1 h2 law m l u show ?thesis by blast
qed

text \<open>
  Counterexample to C6 as stated: in a project that was committed once before (and
  keeps 100 undo steps), the second \<open>undo\<close> goes back beyond the first commit of
  the sequence, and \<open>redo\<close> then restores the state of that first commit, not the
  edited one: the matches are empty again instead of \<open>ncccc\<close>.
\<close>

theorem undo_law_counterexample:
  "matches (commit (example_edit (commit committed_project ''open'')) ''edit'') = ''ncccc'' \<and>
   matches (redo (undo (undo
       (commit (example_edit (commit committed_project ''open'')) ''edit'')))) = [] \<and>
   observable (redo (undo (undo
       (commit (example_edit (commit committed_project ''open'')) ''edit'')))) \<noteq>
     observable (commit (example_edit (commit committed_project ''open'')) ''edit'')"
  by (simp add: committed_project_def undo_eval observable_def)

subsection \<open>C7: the parameters of VFM and VDecimate, by format version\<close>

lemma json_type_matches_code:
  "json_type_matches t v \<longleftrightarrow>
     (t = JSONParamBool \<and> IsBool v) \<or> (t = JSONParamInt \<and> IsInt v) \<or>
     (t = JSONParamDouble \<and> IsDouble v)"
  by (cases t; cases v) (auto simp: IsBool_def IsInt_def IsDouble_def)

lemma read_parameter_v3_error:
  assumes "version \<noteq> 2" and "read_parameter version members ps vp = Inl e"
  shows "e = ParseError"
  using assms by (auto simp: read_parameter_def split: option.splits if_splits)

lemma read_parameter_v3_mismatch:
  assumes "version \<noteq> 2" and "FindMember members k = Some v" and "\<not> json_type_matches t v"
  shows "read_parameter version members ps (k, t) = Inl ParseError"
  using assms by (auto simp: read_parameter_def json_type_matches_code)

lemma read_parameters_v3_mismatch:
  assumes "version \<noteq> 2"
    and "(k, t) \<in> set vps" and "FindMember members k = Some v" and "\<not> json_type_matches t v"
  shows "read_parameters version members vps ps = Inl ParseError"
  using assms(2)
proof (induction vps arbitrary: ps)
  case Nil
  then show ?case by simp
next
  case (Cons vp vps)
  show ?case
  proof (cases "read_parameter version members ps vp")
    case (Inl e)
    with read_parameter_v3_error [OF assms(1) Inl] show ?thesis by simp
  next
    case (Inr ps')
    have "vp \<noteq> (k, t)"
      using read_parameter_v3_mismatch [OF assms(1,3,4), of ps] Inr by auto
    with Cons.prems have "(k, t) \<in> set vps" by auto
    from Cons.IH [OF this] Inr show ?thesis by simp
  qed
qed

lemma read_parameter_v2:
  assumes "fresh_key ps k" and "\<forall>v. FindMember members k = Some v \<longrightarrow> coercible t v"
  shows "\<exists>ps'. read_parameter 2 members ps (k, t) = Inr ps' \<and>
           (\<forall>v. FindMember members k = Some v \<longrightarrow> coerced ps' k t v) \<and>
           (\<forall>k'. k' \<noteq> k \<longrightarrow> same_at ps ps' k')"
  using assms
  by (cases t)
     (auto simp: read_parameter_def coerced_def coercible_def fresh_key_def same_at_def
        map_insert_def split: option.splits)

lemma read_parameters_v2:
  assumes "distinct (map fst vps)"
    and "\<forall>(k, t) \<in> set vps. fresh_key ps k"
    and "\<forall>(k, t) \<in> set vps. \<forall>v. FindMember members k = Some v \<longrightarrow> coercible t v"
  shows "\<exists>ps'. read_parameters 2 members vps ps = Inr ps' \<and>
           (\<forall>(k, t) \<in> set vps. \<forall>v. FindMember members k = Some v \<longrightarrow> coerced ps' k t v) \<and>
           (\<forall>k'. k' \<notin> fst ` set vps \<longrightarrow> same_at ps ps' k')"
  using assms
proof (induction vps arbitrary: ps)
  case Nil
  then show ?case by (simp add: same_at_def)
next
  case (Cons vp vps)
  obtain k t where vp: "vp = (k, t)" by (cases vp)
  from Cons.prems vp have fk: "fresh_key ps k"
    and co: "\<forall>v. FindMember members k = Some v \<longrightarrow> coercible t v"
    and notin: "k \<notin> fst ` set vps" and dist: "distinct (map fst vps)"
    by auto
  from read_parameter_v2 [OF fk co] obtain ps1 where
    r1: "read_parameter 2 members ps (k, t) = Inr ps1"
    and c1: "\<forall>v. FindMember members k = Some v \<longrightarrow> coerced ps1 k t v"
    and s1: "\<forall>k'. k' \<noteq> k \<longrightarrow> same_at ps ps1 k'"
    by blast
  have fresh1: "\<forall>(k', t') \<in> set vps. fresh_key ps1 k'"
  proof safe
    fix k' t' assume m: "(k', t') \<in> set vps"
    with notin have "k' \<noteq> k" by force
    with s1 have "same_at ps ps1 k'" by blast
    moreover from Cons.prems(2) m have "fresh_key ps k'" by auto
    ultimately show "fresh_key ps1 k'" by (simp add: fresh_key_def same_at_def)
  qed
  from Cons.prems(3) have co': "\<forall>(k, t) \<in> set vps. \<forall>v. FindMember members k = Some v \<longrightarrow> coercible t v"
    by auto
  from Cons.IH [OF dist fresh1 co'] obtain ps' where
    r2: "read_parameters 2 members vps ps1 = Inr ps'"
    and c2: "\<forall>(k, t) \<in> set vps. \<forall>v. FindMember members k = Some v \<longrightarrow> coerced ps' k t v"
    and s2: "\<forall>k'. k' \<notin> fst ` set vps \<longrightarrow> same_at ps1 ps' k'"
    by blast
  have run: "read_parameters 2 members (vp # vps) ps = Inr ps'"
    using r1 r2 vp by simp
  have head: "\<forall>v. FindMember members k = Some v \<longrightarrow> coerced ps' k t v"
    using c1 s2 notin by (auto simp: coerced_def same_at_def)
  have rest: "\<forall>k'. k' \<notin> fst ` set (vp # vps) \<longrightarrow> same_at ps ps' k'"
    using s1 s2 vp by (auto simp: same_at_def)
  from run head c2 rest vp show ?case by auto
qed

lemma distinct_valid_parameters:
  "distinct (map fst vfm_valid_parameters)" "distinct (map fst vdecimate_valid_parameters)"
  by (simp_all add: vfm_valid_parameters_def vdecimate_valid_parameters_def)

text \<open>
  C7 (as amended). Reading the \<open>vfm parameters\<close> (and likewise the \<open>vdecimate parameters\<close>) of a
  document into parameter maps that have no entry for the recognised keys: with format
  version 2, if every recognised parameter of the document is a JSON number (whose
  truncation fits \<open>int\<close> where the declared type is \<open>int\<close>), the read succeeds and
  every recognised parameter is stored coerced to its declared type; with format
  version 3, a recognised parameter whose JSON type is not exactly its declared type
  makes the read fail with a parse error.
\<close>

theorem readProject_parameters_by_version:
  "(FindMember json_project ''vfm parameters'' = Some (JObject members) \<longrightarrow>
      ((\<forall>(k, t) \<in> set vfm_valid_parameters. fresh_key ps k) \<and>
       (\<forall>(k, t) \<in> set vfm_valid_parameters.
           \<forall>v. FindMember members k = Some v \<longrightarrow> coercible t v) \<longrightarrow>
       (\<exists>ps'. readProject_vfm_parameters 2 json_project ps = Inr ps' \<and>
          (\<forall>(k, t) \<in> set vfm_valid_parameters.
              \<forall>v. FindMember members k = Some v \<longrightarrow> coerced ps' k t v))) \<and>
      ((\<exists>(k, t) \<in> set vfm_valid_parameters.
           \<exists>v. FindMember members k = Some v \<and> \<not> json_type_matches t v) \<longrightarrow>
       readProject_vfm_parameters 3 json_project ps = Inl ParseError)) \<and>
   (FindMember json_project ''vdecimate parameters'' = Some (JObject members) \<longrightarrow>
      ((\<forall>(k, t) \<in> set vdecimate_valid_parameters. fresh_key ps k) \<and>
       (\<forall>(k, t) \<in> set vdecimate_valid_parameters.
           \<forall>v. FindMember members k = Some v \<longrightarrow> coercible t v) \<longrightarrow>
       (\<exists>ps'. readProject_vdecimate_parameters 2 json_project ps = Inr ps' \<and>
          (\<forall>(k, t) \<in> set vdecimate_valid_parameters.
              \<forall>v. FindMember members k = Some v \<longrightarrow> coerced ps' k t v))) \<and>
      ((\<exists>(k, t) \<in> set vdecimate_valid_parameters.
           \<exists>v. FindMember members k = Some v \<and> \<not> json_type_matches t v) \<longrightarrow>
       readProject_vdecimate_parameters 3 json_project ps = Inl ParseError))"
proof -
  have v2: "\<exists>ps'. read_parameters 2 members vps ps = Inr ps' \<and>
          (\<forall>(k, t) \<in> set vps. \<forall>v. FindMember members k = Some v \<longrightarrow> coerced ps' k t v)"
    if "distinct (map fst vps)" "\<forall>(k, t) \<in> set vps. fresh_key ps k"
      "\<forall>(k, t) \<in> set vps. \<forall>v. FindMember members k = Some v \<longrightarrow> coercible t v"
    for vps
    using read_parameters_v2 [OF that] by blast
  have v3: "read_parameters 3 members vps ps = Inl ParseError"
    if "\<exists>(k, t) \<in> set vps. \<exists>v. FindMember members k = Some v \<and> \<not> json_type_matches t v"
    for vps
    using that read_parameters_v3_mismatch [of 3 _ _ vps members _ ps] by auto
  show ?thesis
    using v2 [OF distinct_valid_parameters(1)] v2 [OF distinct_valid_parameters(2)]
      v3 [of vfm_valid_parameters] v3 [of vdecimate_valid_parameters]
    by (simp add: readProject_vfm_parameters_def readProject_vdecimate_parameters_def)
qed

text \<open>
  The witness of C7: in version 2, \<open>order = 1.0\<close> is read as the integer 1 and
  \<open>chroma = 0.0\<close> as \<open>false\<close>; in version 3 the same document is refused.
\<close>

theorem readProject_parameters_by_version_witness:
  "FindMember example_document ''vfm parameters'' =
     Some (JObject [(''order'', JDouble 1), (''chroma'', JDouble 0)]) \<and>
   parameters_int (projr (readProject_vfm_parameters 2 example_document empty_parameters)) ''order'' =
     Some 1 \<and>
   parameters_bool (projr (readProject_vfm_parameters 2 example_document empty_parameters)) ''chroma'' =
     Some False \<and>
   readProject_vfm_parameters 3 example_document empty_parameters = Inl ParseError \<and>
   FindMember example_document ''vdecimate parameters'' =
     Some (JObject [(''blockx'', JDouble 32), (''dupthresh'', JInt 1)]) \<and>
   parameters_int (projr (readProject_vdecimate_parameters 2 example_document empty_parameters))
     ''blockx'' = Some 32 \<and>
   parameters_double (projr (readProject_vdecimate_parameters 2 example_document empty_parameters))
     ''dupthresh'' = Some 1 \<and>
   readProject_vdecimate_parameters 3 example_document empty_parameters = Inl ParseError"
proof -
  let ?vfm = "[(''order'', JDouble 1), (''chroma'', JDouble 0)]"
  let ?vdec = "[(''blockx'', JDouble 32), (''dupthresh'', JInt 1)]"
  have doc1: "FindMember example_document ''vfm parameters'' = Some (JObject ?vfm)"
    and doc2: "FindMember example_document ''vdecimate parameters'' = Some (JObject ?vdec)"
    by (simp_all add: FindMember_def example_document_def)
  have fresh1: "\<forall>(k, t) \<in> set vfm_valid_parameters. fresh_key empty_parameters k"
    and fresh2: "\<forall>(k, t) \<in> set vdecimate_valid_parameters. fresh_key empty_parameters k"
    by (simp_all add: fresh_key_def empty_parameters_def)
  have co1: "\<forall>(k, t) \<in> set vfm_valid_parameters.
               \<forall>v. FindMember ?vfm k = Some v \<longrightarrow> coercible t v"
    by (simp add: vfm_valid_parameters_def FindMember_def coercible_def IsNumber_def
          double_to_int_def GetDouble_def)
  have co2: "\<forall>(k, t) \<in> set vdecimate_valid_parameters.
               \<forall>v. FindMember ?vdec k = Some v \<longrightarrow> coercible t v"
    by (simp add: vdecimate_valid_parameters_def FindMember_def coercible_def IsNumber_def
          double_to_int_def GetDouble_def)
  have bad1: "\<exists>(k, t) \<in> set vfm_valid_parameters.
               \<exists>v. FindMember ?vfm k = Some v \<and> \<not> json_type_matches t v"
    by (simp add: vfm_valid_parameters_def FindMember_def)
  have bad2: "\<exists>(k, t) \<in> set vdecimate_valid_parameters.
               \<exists>v. FindMember ?vdec k = Some v \<and> \<not> json_type_matches t v"
    by (simp add: vdecimate_valid_parameters_def FindMember_def)
  note vfm = readProject_parameters_by_version [of example_document ?vfm empty_parameters]
  note vdec = readProject_parameters_by_version [of example_document ?vdec empty_parameters]
  from vfm doc1 fresh1 co1 obtain ps1 where
    r1: "readProject_vfm_parameters 2 example_document empty_parameters = Inr ps1"
    and c1: "\<forall>(k, t) \<in> set vfm_valid_parameters.
               \<forall>v. FindMember ?vfm k = Some v \<longrightarrow> coerced ps1 k t v"
    by blast
  from c1 have "coerced ps1 ''order'' JSONParamInt (JDouble 1)"
    and "coerced ps1 ''chroma'' JSONParamBool (JDouble 0)"
    by (simp_all add: vfm_valid_parameters_def FindMember_def)
  with r1 have a: "parameters_int (projr (readProject_vfm_parameters 2 example_document
                     empty_parameters)) ''order'' = Some 1"
    and b: "parameters_bool (projr (readProject_vfm_parameters 2 example_document
                     empty_parameters)) ''chroma'' = Some False"
    by (simp_all add: coerced_def double_to_int_def GetDouble_def)
  from vfm doc1 bad1 have c: "readProject_vfm_parameters 3 example_document empty_parameters = Inl ParseError"
    by blast
  from vdec doc2 fresh2 co2 obtain ps2 where
    r2: "readProject_vdecimate_parameters 2 example_document empty_parameters = Inr ps2"
    and c2: "\<forall>(k, t) \<in> set vdecimate_valid_parameters.
               \<forall>v. FindMember ?vdec k = Some v \<longrightarrow> coerced ps2 k t v"
    by blast
  from c2 have "coerced ps2 ''blockx'' JSONParamInt (JDouble 32)"
    and "coerced ps2 ''dupthresh'' JSONParamDouble (JInt 1)"
    by (simp_all add: vdecimate_valid_parameters_def FindMember_def)
  with r2 have d: "parameters_int (projr (readProject_vdecimate_parameters 2 example_document
                     empty_parameters)) ''blockx'' = Some 32"
    and e: "parameters_double (projr (readProject_vdecimate_parameters 2 example_document
                     empty_parameters)) ''dupthresh'' = Some 1"
    by (simp_all add: coerced_def double_to_int_def GetDouble_def)
  from vdec doc2 bad2
  have f: "readProject_vdecimate_parameters 3 example_document empty_parameters = Inl ParseError"
    by blast
  from doc1 a b c doc2 d e f show ?thesis by blast
qed

text \<open>
  Counterexample to C7 as stated: in a version 2 document \<open>order = 3000000000\<close> is
  a JSON number, but it is not coerced to an \<open>int\<close>: the code casts the double with
  \<open>(int)\<close>, which is undefined for a value that no \<open>int\<close> holds.
\<close>

theorem readProject_parameters_out_of_range_counterexample:
  "FindMember out_of_range_document ''vfm parameters'' =
     Some (JObject [(''order'', JInt 3000000000)]) \<and>
   IsNumber (JInt 3000000000) \<and>
   readProject_vfm_parameters 2 out_of_range_document empty_parameters = Inl UndefinedBehaviour"
  by (simp add: out_of_range_document_def readProject_vfm_parameters_def FindMember_def
        vfm_valid_parameters_def read_parameter_def IsNumber_def GetDouble_def double_to_int_def
        empty_parameters_def)

subsection \<open>C9: guessing the pattern of a section from the mics\<close>

text \<open>
  The two failures of the guess are recorded and reported by \<open>false\<close>, as C9 says: a
  section that is too short,
\<close>

lemma guessSectionPatternsFromMics_too_short:
  assumes "mics p \<noteq> []" and "0 \<le> section_start" and "section_start < num_frames_source p"
    and "sections_count (sections p) section_start"
    and "getSectionEnd p section_start = Inr section_end"
    and "section_end - section_start - 1 < minimum_length"
  shows "guessSectionPatternsFromMics p section_start minimum_length use_patterns drop_duplicate =
           Inr (False, record_failure p section_start SectionTooShort)"
  using assms by (simp add: guessSectionPatternsFromMics_def)

text \<open>and a best pattern whose \<open>mic_dev\<close> exceeds the length of the section.\<close>

lemma guessSectionPatternsFromMics_ambiguous:
  assumes "mics p \<noteq> []" and "0 \<le> section_start" and "section_start < num_frames_source p"
    and "sections_count (sections p) section_start"
    and "getSectionEnd p section_start = Inr section_end"
    and "\<not> section_end - section_start - 1 < minimum_length"
    and "patterns_loop p use_patterns [section_start..section_end - 2] [0, 1, 2]
           ([\<lparr>pattern = ''cccnn'', pattern_offset = - 1, mic_dev = INT_MAX\<rparr>,
             \<lparr>pattern = ''ccnnn'', pattern_offset = - 1, mic_dev = INT_MAX\<rparr>,
             \<lparr>pattern = ''c'', pattern_offset = - 1, mic_dev = INT_MAX\<rparr>],
            INT_MAX, - 1) = Inr (patterns, best_mic_dev, best_pattern)"
    and "0 \<le> best_pattern" and "nat best_pattern < length patterns"
    and "mic_dev (patterns ! nat best_pattern) > section_end - section_start - 1"
  shows "guessSectionPatternsFromMics p section_start minimum_length use_patterns drop_duplicate =
           Inr (False, record_failure p section_start AmbiguousMatchPattern)"
  using assms by (simp add: guessSectionPatternsFromMics_def)

lemmas guess_eval =
  guessSectionPatternsFromMics_def getSectionEnd_def findNextSection_def sections_count_def
  INT_MAX_def string_at_def mic_of_def getMics_def matchCharToIndex_def record_failure_def
  apply_guessed_pattern_def pattern_match_step_def setMatch_def getMatch_def isValidMatchChar_def
  applyPatternGuessingDecimation_def delete_if_decimated_def isDecimatedFrame_def
  deleteDecimatedFrame_def addDecimatedFrame_def clearDecimatedFramesFromCycle_def
  per_cycle_drop_def short_last_section_project_def project_eval setMics_def upto.simps

text \<open>
  With no pattern enabled there is no best pattern, and \<open>patterns[best_pattern]\<close> reads
  the vector at \<open>-1\<close>.
\<close>

lemma guessSectionPatternsFromMics_no_pattern:
  "guessSectionPatternsFromMics short_last_section_project 0 1 0 DropFirstDuplicate =
     Inl UndefinedBehaviour"
  by (simp add: guess_eval)

text \<open>
  C9 (a defect of the code). In a project of seven frames with sections at 0 and 5 and
  mics present, the section at 5 is not too short for a minimum length of 1 and the best
  pattern is not ambiguous, yet the guess raises the frame-out-of-range error instead of
  returning \<open>true\<close>: after the matches are written, the loop of
  \<open>applyPatternGuessingDecimation\<close> that clears the first cycle of the section runs to
  the end of the cycle, frame 9, and \<open>isDecimatedFrame(7)\<close> throws.
\<close>

theorem guessSectionPatternsFromMics_raises:
  "mics short_last_section_project \<noteq> [] \<and>
   sections_count (sections short_last_section_project) 5 \<and>
   getSectionEnd short_last_section_project 5 = Inr 7 \<and>
   guessSectionPatternsFromMics short_last_section_project 5 1 7 DropFirstDuplicate =
     Inl OutOfRange"
  by (simp add: guess_eval)

subsection \<open>C5: the matches of a range, from a pattern\<close>

lemma string_at_pattern:
  assumes "5 \<le> length pat"
  shows "string_at pat (i mod 5) = Inr (candidate pat i)"
proof -
  have "0 \<le> i mod 5" "i mod 5 < 5" by auto
  then have "nat (i mod 5) < length pat" using assms by linarith
  then show ?thesis by (simp add: string_at_def candidate_def)
qed

lemma valid_candidate:
  assumes "5 \<le> length pat" and "\<forall>k < 5. isValidMatchChar (pat ! k)"
  shows "isValidMatchChar (candidate pat i)"
proof -
  have "0 \<le> i mod 5" "i mod 5 < 5" by auto
  then have "nat (i mod 5) < 5" by linarith
  with assms(2) show ?thesis by (simp add: candidate_def)
qed

lemma range_match_step_skipped:
  assumes "5 \<le> length pat" and "skipped (num_frames_source p) pat i"
  shows "range_match_step range_end pat p i = Inr p"
  using assms
  by (auto simp: range_match_step_def string_at_pattern skipped_def)

lemma range_match_step_stored:
  assumes "5 \<le> length pat" and "\<forall>k < 5. isValidMatchChar (pat ! k)"
    and "0 \<le> i" and "i < num_frames_source p"
    and "matches p = [] \<or> length (matches p) = nat (num_frames_source p)"
    and "\<not> skipped (num_frames_source p) pat i"
  shows "range_match_step range_end pat p i =
           Inr (p\<lparr>matches := (allocated_matches p)
                  [nat i := stored_match (num_frames_source p) range_end pat i]\<rparr>)"
proof -
  have v: "isValidMatchChar (candidate pat i)" by (rule valid_candidate [OF assms(1,2)])
  have l: "nat i < length (allocated_matches p)"
    using assms(3,4,5) by (auto simp: allocated_matches_def)
  have b: "isValidMatchChar CHR ''b''" by (simp add: isValidMatchChar_def)
  show ?thesis
    using assms(3,4,6) v l b
    by (auto simp: range_match_step_def string_at_pattern [OF assms(1)] skipped_def
          stored_match_def setMatch_def allocated_matches_def [symmetric] Let_def
          isValidMatchChar_def)
qed


lemma update_then_map:
  fixes base :: "'a list"
  assumes "length base = n" and "0 \<le> i" and "nat i < n" and "\<not> sk i"
  shows "(if \<forall>t \<in> T. sk t then base[nat i := st i]
          else map (\<lambda>j. if int j \<in> T \<and> \<not> sk (int j) then st (int j)
                         else base[nat i := st i] ! j) [0..<n]) =
         map (\<lambda>j. if int j \<in> insert i T \<and> \<not> sk (int j) then st (int j) else base ! j) [0..<n]"
proof (rule nth_equalityI)
  show "length (if \<forall>t \<in> T. sk t then base[nat i := st i]
          else map (\<lambda>j. if int j \<in> T \<and> \<not> sk (int j) then st (int j)
                         else base[nat i := st i] ! j) [0..<n]) =
        length (map (\<lambda>j. if int j \<in> insert i T \<and> \<not> sk (int j) then st (int j) else base ! j) [0..<n])"
    using assms(1) by simp
next
  fix j
  assume "j < length (if \<forall>t \<in> T. sk t then base[nat i := st i]
          else map (\<lambda>j. if int j \<in> T \<and> \<not> sk (int j) then st (int j)
                         else base[nat i := st i] ! j) [0..<n])"
  then have j: "j < n" using assms(1) by (simp split: if_splits)
  have eq: "int j = i \<longleftrightarrow> j = nat i" using assms(2) by auto
  show "(if \<forall>t \<in> T. sk t then base[nat i := st i]
          else map (\<lambda>j. if int j \<in> T \<and> \<not> sk (int j) then st (int j)
                         else base[nat i := st i] ! j) [0..<n]) ! j =
        map (\<lambda>j. if int j \<in> insert i T \<and> \<not> sk (int j) then st (int j) else base ! j) [0..<n] ! j"
    using j assms eq by (auto simp: nth_list_update)
qed

lemma for_frames_range_matches:
  assumes "5 \<le> length pat" and "\<forall>k < 5. isValidMatchChar (pat ! k)"
    and "\<forall>i \<in> set frames. 0 \<le> i \<and> i < num_frames_source p"
    and "matches p = [] \<or> length (matches p) = nat (num_frames_source p)"
  shows "\<exists>p'. for_frames (range_match_step range_end pat) frames p = Inr p' \<and>
           num_frames_source p' = num_frames_source p \<and>
           is_modified p' = is_modified p \<and>
           matches p' = pattern_matches p (set frames) range_end pat"
  using assms(3,4)
proof (induction frames arbitrary: p)
  case Nil
  then show ?case by (simp add: pattern_matches_def)
next
  case (Cons i frames)
  let ?n = "num_frames_source p"
  from Cons.prems have i: "0 \<le> i" "i < ?n"
    and rest: "\<forall>i \<in> set frames. 0 \<le> i \<and> i < ?n" by auto
  show ?case
  proof (cases "skipped ?n pat i")
    case True
    from Cons.IH [OF rest Cons.prems(2)] obtain p' where
      "for_frames (range_match_step range_end pat) frames p = Inr p'"
      "num_frames_source p' = ?n" "is_modified p' = is_modified p"
      "matches p' = pattern_matches p (set frames) range_end pat"
      by blast
    with True show ?thesis
      by (auto simp: range_match_step_skipped [OF assms(1) True] pattern_matches_def)
  next
    case False
    let ?p1 = "p\<lparr>matches := (allocated_matches p)[nat i := stored_match ?n range_end pat i]\<rparr>"
    have step: "range_match_step range_end pat p i = Inr ?p1"
      by (rule range_match_step_stored [OF assms(1,2) i Cons.prems(2) False])
    have len: "length (allocated_matches p) = nat ?n"
      using Cons.prems(2) by (auto simp: allocated_matches_def)
    have ne: "matches ?p1 \<noteq> []" using len i by auto
    have rest1: "\<forall>i \<in> set frames. 0 \<le> i \<and> i < num_frames_source ?p1" using rest by simp
    have len1: "matches ?p1 = [] \<or> length (matches ?p1) = nat (num_frames_source ?p1)"
      using len by simp
    from Cons.IH [OF rest1 len1] obtain p' where
      run: "for_frames (range_match_step range_end pat) frames ?p1 = Inr p'"
      and n: "num_frames_source p' = ?n" and m: "is_modified p' = is_modified p"
      and ms: "matches p' = pattern_matches ?p1 (set frames) range_end pat"
      by auto
    have alloc1: "allocated_matches ?p1 = (allocated_matches p)[nat i := stored_match ?n range_end pat i]"
      using ne by (simp add: allocated_matches_def)
    have "pattern_matches ?p1 (set frames) range_end pat =
          pattern_matches p (set (i # frames)) range_end pat"
    proof -
      have lt: "nat i < nat ?n" using i by simp
      note u = update_then_map [where base = "allocated_matches p" and n = "nat ?n" and i = i
          and sk = "skipped ?n pat" and T = "set frames"
          and st = "stored_match ?n range_end pat", OF len i(1) lt False]
      have L: "pattern_matches ?p1 (set frames) range_end pat =
          (if \<forall>t \<in> set frames. skipped ?n pat t
           then (allocated_matches p)[nat i := stored_match ?n range_end pat i]
           else map (\<lambda>j. if int j \<in> set frames \<and> \<not> skipped ?n pat (int j)
                          then stored_match ?n range_end pat (int j)
                          else (allocated_matches p)[nat i := stored_match ?n range_end pat i] ! j)
                  [0..<nat ?n])"
        by (simp add: pattern_matches_def alloc1)
      have R: "pattern_matches p (set (i # frames)) range_end pat =
          map (\<lambda>j. if int j \<in> insert i (set frames) \<and> \<not> skipped ?n pat (int j)
                    then stored_match ?n range_end pat (int j)
                    else allocated_matches p ! j) [0..<nat ?n]"
        using False by (simp add: pattern_matches_def)
      show ?thesis unfolding L R by (rule u)
    qed
    with run n m ms step show ?thesis by simp
  qed
qed

text \<open>
  C5 (as amended). For a range \<open>0 \<le> start \<le> end < num_frames_source\<close>, a pattern of
  at least five characters whose first five are match characters, and a matches array
  that is empty or has one entry per source frame: \<open>setRangeMatchesFromPattern\<close>
  succeeds; every frame \<open>i\<close> of the range that is not skipped holds the candidate
  \<open>pattern[i mod 5]\<close>, with \<open>n\<close> stored as \<open>b\<close> at the last source frame and at the
  end of the range (as \<open>n\<close> again if that frame is frame 0); frame 0 is skipped when
  the candidate is \<open>p\<close> or \<open>b\<close> and the last source frame when it is \<open>u\<close>, and a
  skipped frame keeps its entry.
\<close>

theorem setRangeMatchesFromPattern_assigns:
  assumes "0 \<le> range_start" and "range_start \<le> range_end"
    and "range_end < num_frames_source p"
    and "5 \<le> length pat" and "\<forall>k < 5. isValidMatchChar (pat ! k)"
    and "matches p = [] \<or> length (matches p) = nat (num_frames_source p)"
  shows "\<exists>p'. setRangeMatchesFromPattern p range_start range_end pat = Inr p' \<and>
           matches p' = pattern_matches p {range_start..range_end} range_end pat \<and>
           (\<forall>i. range_start \<le> i \<and> i \<le> range_end \<and> \<not> skipped (num_frames_source p) pat i \<longrightarrow>
                matches p' ! nat i = stored_match (num_frames_source p) range_end pat i) \<and>
           (\<forall>i. range_start \<le> i \<and> i \<le> range_end \<and> skipped (num_frames_source p) pat i \<longrightarrow>
                matches p' = matches p \<or> matches p' ! nat i = allocated_matches p ! nat i)"
proof -
  let ?n = "num_frames_source p"
  have rng: "\<forall>i \<in> set [range_start..range_end]. 0 \<le> i \<and> i < ?n"
    using assms(1,3) by auto
  from for_frames_range_matches [OF assms(4,5) rng assms(6), of range_end] obtain p1 where
    run: "for_frames (range_match_step range_end pat) [range_start..range_end] p = Inr p1"
    and ms: "matches p1 = pattern_matches p {range_start..range_end} range_end pat"
    by auto
  let ?p' = "setModified True p1"
  have res: "setRangeMatchesFromPattern p range_start range_end pat = Inr ?p'"
    using assms(1,2,3) run by (simp add: setRangeMatchesFromPattern_def)
  have ms': "matches ?p' = pattern_matches p {range_start..range_end} range_end pat"
    using ms by (simp add: setModified_def)
  have written: "matches ?p' ! nat i = stored_match ?n range_end pat i"
    if "range_start \<le> i" "i \<le> range_end" "\<not> skipped ?n pat i" for i
  proof -
    have "nat i < nat ?n" "int (nat i) = i" using that assms(1,3) by auto
    with that show ?thesis unfolding ms' pattern_matches_def by auto
  qed
  have left: "matches ?p' = matches p \<or> matches ?p' ! nat i = allocated_matches p ! nat i"
    if "range_start \<le> i" "i \<le> range_end" "skipped ?n pat i" for i
  proof -
    have "nat i < nat ?n" "int (nat i) = i" using that assms(1,3) by auto
    with that show ?thesis unfolding ms' pattern_matches_def by auto
  qed
  from res ms' written left show ?thesis by blast
qed

text \<open>
  The witness of C5: the pattern \<open>cccnn\<close> over all ten frames of a new project; the
  \<open>n\<close> of the last frame is stored as \<open>b\<close>.
\<close>

lemmas range_eval =
  project_eval setRangeMatchesFromPattern_def range_match_step_def string_at_def setMatch_def
  isValidMatchChar_def upto.simps

theorem setRangeMatchesFromPattern_assigns_witness:
  "(0::int) \<le> 0 \<and> (0::int) \<le> 9 \<and> 9 < num_frames_source (projr (new_project 10 100)) \<and>
   5 \<le> length ''cccnn'' \<and> matches (projr (new_project 10 100)) = [] \<and>
   map_sum id matches (setRangeMatchesFromPattern (projr (new_project 10 100)) 0 9 ''cccnn'') =
     Inr ''cccnncccnb'' \<and>
   \<not> skipped (num_frames_source (projr (new_project 10 100))) ''cccnn'' 9 \<and>
   stored_match (num_frames_source (projr (new_project 10 100))) 9 ''cccnn'' 9 = CHR ''b'' \<and>
   matches (projr (setRangeMatchesFromPattern (projr (new_project 10 100)) 0 9 ''cccnn'')) ! nat 9 =
     stored_match (num_frames_source (projr (new_project 10 100))) 9 ''cccnn'' 9"
proof -
  let ?p = "projr (new_project 10 100)"
  have h: "(0::int) \<le> 0" "(0::int) \<le> 9" "9 < num_frames_source ?p" "5 \<le> length ''cccnn''"
    by (simp_all add: project_eval)
  have v: "\<forall>k < 5. isValidMatchChar (''cccnn'' ! k)"
  proof (intro allI impI)
    fix k :: nat assume "k < 5"
    then have "k = 0 \<or> k = 1 \<or> k = 2 \<or> k = 3 \<or> k = 4" by arith
    then show "isValidMatchChar (''cccnn'' ! k)" by (auto simp: isValidMatchChar_def)
  qed
  have e: "matches ?p = []" by (simp add: project_eval)
  have ev: "map_sum id matches (setRangeMatchesFromPattern ?p 0 9 ''cccnn'') = Inr ''cccnncccnb''"
    by (simp add: range_eval)
  have s: "\<not> skipped (num_frames_source ?p) ''cccnn'' 9"
    by (simp add: skipped_def candidate_def project_eval)
  have st: "stored_match (num_frames_source ?p) 9 ''cccnn'' 9 = CHR ''b''"
    by (simp add: stored_match_def candidate_def project_eval)
  from setRangeMatchesFromPattern_assigns [OF h(1,2,3,4) v disjI1 [OF e]] obtain p' where
    r: "setRangeMatchesFromPattern ?p 0 9 ''cccnn'' = Inr p'"
    and w: "\<forall>i. 0 \<le> i \<and> i \<le> 9 \<and> \<not> skipped (num_frames_source ?p) ''cccnn'' i \<longrightarrow>
                matches p' ! nat i = stored_match (num_frames_source ?p) 9 ''cccnn'' i"
    by blast
  from w [rule_format, of 9] s
  have "matches p' ! nat 9 = stored_match (num_frames_source ?p) 9 ''cccnn'' 9" by simp
  with r have last: "matches (projr (setRangeMatchesFromPattern ?p 0 9 ''cccnn'')) ! nat 9 =
     stored_match (num_frames_source ?p) 9 ''cccnn'' 9" by simp
  from h e ev s st last show ?thesis by blast
qed

text \<open>
  Counterexample to C5 as stated: the code reads \<open>pattern[i % 5]\<close>, not
  \<open>pattern[i % pattern.size()]\<close>. With the pattern \<open>cccccn\<close> of length six, frame 5
  gets \<open>pattern[0] = c\<close> where the claim says \<open>pattern[5] = n\<close>; with the pattern
  \<open>c\<close> of length one, frame 1 reads the terminating zero character and the call fails
  with the invalid-match-character error where the claim says it assigns \<open>c\<close>.
\<close>

theorem setRangeMatchesFromPattern_counterexample:
  "''cccccn'' ! (5 mod length ''cccccn'') = CHR ''n'' \<and>
   map_sum id matches (setRangeMatchesFromPattern (projr (new_project 10 100)) 5 6 ''cccccn'') =
     Inr ''cccccccccc'' \<and>
   ''c'' ! (1 mod length ''c'') = CHR ''c'' \<and>
   setRangeMatchesFromPattern (projr (new_project 10 100)) 0 1 ''c'' = Inl InvalidMatchChar"
  by (simp add: range_eval)

subsection \<open>C2: frame numbers before and after decimation\<close>

lemma offsets_upto: "[0, 1, 2, 3, 4] = [0..4::int]"
  by (simp add: upto.simps)

lemma scan_offsets_filter:
  assumes "0 \<le> k"
  shows "scan_offsets d js k =
           (if nat k < length (filter (\<lambda>j. j \<notin> d) js)
            then Inl (filter (\<lambda>j. j \<notin> d) js ! nat k)
            else Inr (k - int (length (filter (\<lambda>j. j \<notin> d) js))))"
  using assms
proof (induction js arbitrary: k)
  case Nil
  then show ?case by simp
next
  case (Cons j js)
  show ?case
  proof (cases "j \<in> d")
    case True
    with Cons show ?thesis by simp
  next
    case False
    show ?thesis
    proof (cases "k = 0")
      case True
      with False show ?thesis by simp
    next
      case k: False
      with Cons.prems have pos: "0 \<le> k - 1" "nat k = Suc (nat (k - 1))" by auto
      from Cons.IH [OF pos(1)] False k pos show ?thesis by (simp add: Let_def)
    qed
  qed
qed

lemma scan_cycles_kept:
  assumes "0 \<le> k"
  shows "scan_cycles ds i k =
           (if nat k < length (kept_frames ds i) then Inr (kept_frames ds i ! nat k)
            else Inl ConversionFailed)"
  using assms
proof (induction ds arbitrary: i k)
  case Nil
  then show ?case by simp
next
  case (Cons d ds)
  let ?ks = "filter (\<lambda>j. j \<notin> d) [0..4]"
  have so: "scan_offsets d [0, 1, 2, 3, 4] k =
           (if nat k < length ?ks then Inl (?ks ! nat k) else Inr (k - int (length ?ks)))"
    unfolding offsets_upto by (rule scan_offsets_filter [OF Cons.prems])
  show ?case
  proof (cases "nat k < length ?ks")
    case True
    with so have "scan_offsets d [0, 1, 2, 3, 4] k = Inl (?ks ! nat k)" by (simp only: if_True)
    then have "scan_cycles (d # ds) i k = Inr (i * 5 + ?ks ! nat k)"
      by (simp only: scan_cycles.simps sum.case)
    with True show ?thesis by (simp add: nth_append)
  next
    case False
    with Cons.prems have ge: "0 \<le> k - int (length ?ks)" by arith
    have n: "nat (k - int (length ?ks)) = nat k - length ?ks" by arith
    from False so have "scan_offsets d [0, 1, 2, 3, 4] k = Inr (k - int (length ?ks))"
      by (simp only: if_False)
    then have "scan_cycles (d # ds) i k = scan_cycles ds (i + 1) (k - int (length ?ks))"
      by (simp only: scan_cycles.simps sum.case)
    also note Cons.IH [OF ge, of "i + 1"]
    finally have r: "scan_cycles (d # ds) i k =
        (if nat k - length ?ks < length (kept_frames ds (i + 1))
         then Inr (kept_frames ds (i + 1) ! (nat k - length ?ks)) else Inl ConversionFailed)"
      by (simp only: n)
    have c: "nat k < length (kept_frames (d # ds) i) \<longleftrightarrow>
             nat k - length ?ks < length (kept_frames ds (i + 1))"
      using False by auto
    have e: "kept_frames (d # ds) i ! nat k = kept_frames ds (i + 1) ! (nat k - length ?ks)"
      using False by (simp add: nth_append)
    show ?thesis unfolding r c e by (rule refl)
  qed
qed

lemma kept_frames_append:
  "kept_frames (xs @ ys) i = kept_frames xs i @ kept_frames ys (i + int (length xs))"
  by (induction xs arbitrary: i) (simp_all add: algebra_simps)

lemma kept_frames_bounds:
  assumes "g \<in> set (kept_frames ds i)"
  shows "i * 5 \<le> g \<and> g < (i + int (length ds)) * 5"
  using assms
proof (induction ds arbitrary: i)
  case Nil
  then show ?case by simp
next
  case (Cons d ds)
  from Cons.prems consider
    "g \<in> set (map (\<lambda>offset. i * 5 + offset) (filter (\<lambda>offset. offset \<notin> d) [0..4]))"
    | "g \<in> set (kept_frames ds (i + 1))" by auto
  then show ?case
  proof cases
    case 1
    then show ?thesis by auto
  next
    case 2
    from Cons.IH [OF 2] show ?thesis by auto
  qed
qed

lemma kept_frames_sorted: "sorted_wrt (<) (kept_frames ds i)"
proof (induction ds arbitrary: i)
  case Nil
  then show ?case by simp
next
  case (Cons d ds)
  have "sorted_wrt (<) [0..4::int]"
    unfolding offsets_upto [symmetric] by simp
  then have a: "sorted_wrt (<) (map (\<lambda>offset. i * 5 + offset)
             (filter (\<lambda>offset. offset \<notin> d) [0..4]))"
    by (simp add: sorted_wrt_map sorted_wrt_filter)
  have b: "x < y"
    if "x \<in> set (map (\<lambda>offset. i * 5 + offset) (filter (\<lambda>offset. offset \<notin> d) [0..4]))"
      "y \<in> set (kept_frames ds (i + 1))" for x y
  proof -
    from that(1) have "x < (i + 1) * 5" by auto
    moreover from kept_frames_bounds [OF that(2)] have "(i + 1) * 5 \<le> y" by simp
    ultimately show ?thesis by simp
  qed
  from a b Cons.IH [of "i + 1"] show ?case
    by (simp add: sorted_wrt_append del: set_map set_filter)
qed

lemma kept_offsets_length:
  assumes "\<forall>offset \<in> d. 0 \<le> offset \<and> offset < 5"
  shows "int (length (filter (\<lambda>offset. offset \<notin> d) [0..4])) = 5 - int (card d)"
proof -
  let ?xs = "[0..4 :: int]"
  have "set (filter (\<lambda>offset. offset \<in> d) ?xs) = d"
  proof
    show "set (filter (\<lambda>offset. offset \<in> d) ?xs) \<subseteq> d" by auto
    show "d \<subseteq> set (filter (\<lambda>offset. offset \<in> d) ?xs)"
    proof
      fix x assume x: "x \<in> d"
      with assms have "0 \<le> x" "x < 5" by auto
      with x show "x \<in> set (filter (\<lambda>offset. offset \<in> d) ?xs)" by auto
    qed
  qed
  moreover have "distinct (filter (\<lambda>offset. offset \<in> d) ?xs)" by simp
  ultimately have c: "card d = length (filter (\<lambda>offset. offset \<in> d) ?xs)"
    using distinct_card by metis
  have "length (filter (\<lambda>offset. offset \<in> d) ?xs) + length (filter (\<lambda>offset. offset \<notin> d) ?xs) = length ?xs"
    by (rule sum_length_filter_compl)
  moreover have "length ?xs = 5" by simp
  ultimately show ?thesis using c by linarith
qed

lemma kept_frames_length:
  assumes "\<forall>d \<in> set ds. \<forall>offset \<in> d. 0 \<le> offset \<and> offset < 5"
  shows "int (length (kept_frames ds i)) =
           5 * int (length ds) - sum_list (map (\<lambda>cycle. int (card cycle)) ds)"
  using assms
proof (induction ds arbitrary: i)
  case Nil
  then show ?case by simp
next
  case (Cons d ds)
  from Cons.prems have d: "\<forall>offset \<in> d. 0 \<le> offset \<and> offset < 5"
    and ds: "\<forall>d \<in> set ds. \<forall>offset \<in> d. 0 \<le> offset \<and> offset < 5" by auto
  from kept_offsets_length [OF d] Cons.IH [OF ds, of "i + 1"] show ?case
    by simp
qed

lemma sorted_index:
  assumes "sorted_wrt (<) (ks :: int list)" and "f \<in> set ks"
  shows "length (filter (\<lambda>g. g < f) ks) < length ks \<and> ks ! length (filter (\<lambda>g. g < f) ks) = f"
  using assms
proof (induction ks)
  case Nil
  then show ?case by simp
next
  case (Cons k ks)
  show ?case
  proof (cases "k = f")
    case True
    with Cons.prems have "\<forall>g \<in> set ks. \<not> g < f" by auto
    then have "filter (\<lambda>g. g < f) ks = []" by (simp add: filter_empty_conv)
    with True show ?thesis by simp
  next
    case False
    with Cons.prems have m: "f \<in> set ks" and lt: "k < f" and s: "sorted_wrt (<) ks" by auto
    from Cons.IH [OF s m] lt show ?thesis by simp
  qed
qed


lemma fold_minus_card:
  "fold (\<lambda>i out. out - int (card (ds ! i))) xs x = x - sum_list (map (\<lambda>i. int (card (ds ! i))) xs)"
  by (induction xs arbitrary: x) simp_all

lemma fold_count_kept:
  "fold (\<lambda>i out. if i \<notin> d then out + 1 else out) xs x =
     x + int (length (filter (\<lambda>i. i \<notin> d) xs))"
  by (induction xs arbitrary: x) simp_all

lemma map_nth_take:
  assumes "c \<le> length xs"
  shows "map (\<lambda>i. g (xs ! i)) [0..<c] = map g (take c xs)"
  using assms by (induction c) (simp_all add: take_Suc_conv_app_nth)

lemma filter_less_offsets:
  assumes "0 \<le> pos" and "pos < 5"
  shows "filter (\<lambda>offset. offset < pos) [0..4] = [0..pos - 1]"
proof -
  from assms have "pos = 0 \<or> pos = 1 \<or> pos = 2 \<or> pos = 3 \<or> pos = 4" by arith
  then show ?thesis by (auto simp: upto.simps)
qed

lemma kept_frames_split:
  assumes "c < length ds"
  shows "kept_frames ds 0 =
           kept_frames (take c ds) 0 @
           map (\<lambda>offset. int c * 5 + offset) (filter (\<lambda>offset. offset \<notin> ds ! c) [0..4]) @
           kept_frames (drop (Suc c) ds) (int c + 1)"
proof -
  have "ds = take c ds @ ds ! c # drop (Suc c) ds"
    using assms by (simp add: id_take_nth_drop)
  then have "kept_frames ds 0 = kept_frames (take c ds @ ds ! c # drop (Suc c) ds) 0" by simp
  also have "\<dots> = kept_frames (take c ds) 0 @ kept_frames (ds ! c # drop (Suc c) ds) (int c)"
    using assms by (simp add: kept_frames_append)
  finally show ?thesis by simp
qed

lemma kept_frames_member:
  assumes "c < length ds" and "0 \<le> pos" and "pos < 5"
  shows "int c * 5 + pos \<in> set (kept_frames ds 0) \<longleftrightarrow> pos \<notin> ds ! c"
proof -
  let ?f = "int c * 5 + pos"
  let ?B = "map (\<lambda>offset. int c * 5 + offset) (filter (\<lambda>offset. offset \<notin> ds ! c) [0..4])"
  have a: "?f \<notin> set (kept_frames (take c ds) 0)"
  proof
    assume "?f \<in> set (kept_frames (take c ds) 0)"
    from kept_frames_bounds [OF this] assms show False by simp
  qed
  have c: "?f \<notin> set (kept_frames (drop (Suc c) ds) (int c + 1))"
  proof
    assume "?f \<in> set (kept_frames (drop (Suc c) ds) (int c + 1))"
    from kept_frames_bounds [OF this] assms show False by simp
  qed
  have b: "?f \<in> set ?B \<longleftrightarrow> pos \<notin> ds ! c"
  proof
    assume "?f \<in> set ?B"
    then obtain offset where "offset \<notin> ds ! c" "?f = int c * 5 + offset" by auto
    then show "pos \<notin> ds ! c" by simp
  next
    assume "pos \<notin> ds ! c"
    with assms(2,3) have "pos \<in> set (filter (\<lambda>offset. offset \<notin> ds ! c) [0..4])" by simp
    then have "?f \<in> (\<lambda>offset. int c * 5 + offset) ` set (filter (\<lambda>offset. offset \<notin> ds ! c) [0..4])"
      by (rule imageI)
    then show "?f \<in> set ?B" by (simp only: set_map)
  qed
  have "?f \<in> set (kept_frames ds 0) \<longleftrightarrow> ?f \<in> set ?B"
    unfolding kept_frames_split [OF assms(1)] using a c by (simp only: set_append Un_iff) blast
  with b show ?thesis by blast
qed

lemma filter_shifted:
  "filter (\<lambda>g. g < (b::int) + pos) (map (\<lambda>offset. b + offset) (filter Q xs)) =
     map (\<lambda>offset. b + offset) (filter Q (filter (\<lambda>offset. offset < pos) xs))"
  by (induction xs) auto

lemma kept_frames_count_before:
  assumes "\<forall>d \<in> set ds. \<forall>offset \<in> d. 0 \<le> offset \<and> offset < 5"
    and "c < length ds" and "0 \<le> pos" and "pos < 5"
  shows "int (length (filter (\<lambda>g. g < int c * 5 + pos) (kept_frames ds 0))) =
           int c * 5 - sum_list (map (\<lambda>cycle. int (card cycle)) (take c ds))
           + int (length (filter (\<lambda>offset. offset \<notin> ds ! c) [0..pos - 1]))"
proof -
  let ?f = "int c * 5 + pos"
  let ?A = "kept_frames (take c ds) 0"
  let ?B = "map (\<lambda>offset. int c * 5 + offset) (filter (\<lambda>offset. offset \<notin> ds ! c) [0..4])"
  let ?C = "kept_frames (drop (Suc c) ds) (int c + 1)"
  have a: "filter (\<lambda>g. g < ?f) ?A = ?A"
  proof (rule filter_True, rule ballI)
    fix g assume "g \<in> set ?A"
    from kept_frames_bounds [OF this] assms(2,3) show "g < ?f" by simp
  qed
  have c: "filter (\<lambda>g. g < ?f) ?C = []"
  proof (rule filter_False, rule ballI)
    fix g assume "g \<in> set ?C"
    from kept_frames_bounds [OF this] assms(4) show "\<not> g < ?f" by simp
  qed
  have b: "length (filter (\<lambda>g. g < ?f) ?B) =
        length (filter (\<lambda>offset. offset \<notin> ds ! c) [0..pos - 1])"
    unfolding filter_shifted filter_less_offsets [OF assms(3,4)] by simp
  have wf: "\<forall>d \<in> set (take c ds). \<forall>offset \<in> d. 0 \<le> offset \<and> offset < 5"
    using assms(1) by (meson in_set_takeD)
  have la: "int (length ?A) = 5 * int c - sum_list (map (\<lambda>cycle. int (card cycle)) (take c ds))"
    using kept_frames_length [OF wf, of 0] assms(2) by simp
  have "length (filter (\<lambda>g. g < ?f) (kept_frames ds 0)) =
        length ?A + length (filter (\<lambda>offset. offset \<notin> ds ! c) [0..pos - 1])"
    unfolding kept_frames_split [OF assms(2)] by (simp only: filter_append a b c length_append) simp
  with la show ?thesis by simp
qed


lemma frame_split:
  assumes "0 \<le> (f::int)"
  shows "int (nat (f div 5)) * 5 + f mod 5 = f" and "int (nat (f div 5)) = f div 5"
proof -
  have "0 \<le> f div 5" using assms by (simp add: pos_imp_zdiv_nonneg_iff)
  then show "int (nat (f div 5)) * 5 + f mod 5 = f" and "int (nat (f div 5)) = f div 5"
    by simp_all
qed

lemma decimation_wf_offsets:
  assumes "decimation_wf p"
  shows "\<forall>d \<in> set (decimated_frames p). \<forall>offset \<in> d. 0 \<le> offset \<and> offset < 5"
  using assms unfolding decimation_wf_def by (metis in_set_conv_nth)

lemma decimation_wf_cycle:
  assumes "decimation_wf p" and "0 \<le> f" and "f < num_frames_source p"
  shows "nat (f div 5) < length (decimated_frames p)"
  using assms unfolding decimation_wf_def by linarith

lemma frameNumberAfterDecimation_count:
  assumes "decimation_wf p" and "0 \<le> f" and "f < num_frames_source p"
  shows "frameNumberAfterDecimation p f =
           Inr (if f = num_frames_source p - 1 \<and> f mod 5 \<in> decimated_frames p ! nat (f div 5)
                then int (length (filter (\<lambda>g. g < f) (kept_frames (decimated_frames p) 0))) - 1
                else int (length (filter (\<lambda>g. g < f) (kept_frames (decimated_frames p) 0))))"
proof -
  let ?ds = "decimated_frames p"
  let ?c = "nat (f div 5)"
  have c: "?c < length ?ds" by (rule decimation_wf_cycle [OF assms])
  have pos: "0 \<le> f mod 5" "f mod 5 < 5" by auto
  have f: "int ?c * 5 + f mod 5 = f" by (rule frame_split(1) [OF assms(2)])
  have ic: "int ?c = f div 5" by (rule frame_split(2) [OF assms(2)])
  have s: "sum_list (map (\<lambda>i. int (card (?ds ! i))) [0..<?c]) =
           sum_list (map (\<lambda>cycle. int (card cycle)) (take ?c ?ds))"
    using map_nth_take [of ?c ?ds "\<lambda>cycle. int (card cycle)"] c by simp
  note cnt = kept_frames_count_before [OF decimation_wf_offsets [OF assms(1)] c pos]
  have raw: "fold (\<lambda>i out. if i \<notin> ?ds ! ?c then out + 1 else out) [0..f mod 5 - 1]
               (fold (\<lambda>i out. out - int (card (?ds ! i))) [0..<?c] (f div 5 * 5)) =
             int (length (filter (\<lambda>g. g < f) (kept_frames ?ds 0)))"
    using cnt unfolding f ic by (simp add: fold_minus_card fold_count_kept s ic)
  have "frameNumberAfterDecimation p f =
          Inr (if f = num_frames_source p - 1 \<and> f mod 5 \<in> ?ds ! ?c
               then fold (\<lambda>i out. if i \<notin> ?ds ! ?c then out + 1 else out) [0..f mod 5 - 1]
                      (fold (\<lambda>i out. out - int (card (?ds ! i))) [0..<?c] (f div 5 * 5)) - 1
               else fold (\<lambda>i out. if i \<notin> ?ds ! ?c then out + 1 else out) [0..f mod 5 - 1]
                      (fold (\<lambda>i out. out - int (card (?ds ! i))) [0..<?c] (f div 5 * 5)))"
    using assms(2,3) c
    by (simp add: frameNumberAfterDecimation_def isDecimatedFrame_def Let_def split del: if_split
          cong: if_cong)
  then show ?thesis unfolding raw .
qed

lemma kept_before_bound:
  assumes "decimation_wf p" and "0 \<le> f" and "f < num_frames_source p"
    and "f mod 5 \<notin> decimated_frames p ! nat (f div 5)"
  shows "int (length (filter (\<lambda>g. g < f) (kept_frames (decimated_frames p) 0))) <
           num_frames_decimated p"
proof -
  let ?ds = "decimated_frames p"
  let ?K = "kept_frames ?ds 0"
  let ?n = "num_frames_source p"
  let ?m = "5 * int (length ?ds)"
  have c: "nat (f div 5) < length ?ds" by (rule decimation_wf_cycle [OF assms(1,2,3)])
  have "int (nat (f div 5)) * 5 + f mod 5 \<in> set ?K"
    using kept_frames_member [OF c, of "f mod 5"] assms(4) by simp
  then have fK: "f \<in> set ?K" by (metis frame_split(1) assms(2))
  have tail: "g \<in> set ?K" if "?n \<le> g" "g < ?m" for g
  proof -
    from that assms(2,3) have g0: "0 \<le> g" by linarith
    from that have cg: "nat (g div 5) < length ?ds" using g0 by linarith
    have "g mod 5 \<notin> ?ds ! nat (g div 5)"
    proof
      assume "g mod 5 \<in> ?ds ! nat (g div 5)"
      with assms(1) cg have "int (nat (g div 5)) * 5 + g mod 5 < ?n"
        unfolding decimation_wf_def by blast
      then have "g < ?n" by (metis frame_split(1) g0)
      with that show False by simp
    qed
    then have "int (nat (g div 5)) * 5 + g mod 5 \<in> set ?K"
      using kept_frames_member [OF cg, of "g mod 5"] by simp
    then show ?thesis by (metis frame_split(1) g0)
  qed
  have sub: "insert f {?n..<?m} \<subseteq> set (filter (\<lambda>g. \<not> g < f) ?K)"
    using fK tail assms(3) by auto
  have dist: "distinct ?K" using kept_frames_sorted [of ?ds 0] by (simp add: strict_sorted_iff)
  have "card (insert f {?n..<?m}) \<le> card (set (filter (\<lambda>g. \<not> g < f) ?K))"
    by (rule card_mono [OF _ sub]) simp
  moreover have "card (insert f {?n..<?m}) = Suc (nat (?m - ?n))"
    using assms(3) by simp
  moreover have "card (set (filter (\<lambda>g. \<not> g < f) ?K)) = length (filter (\<lambda>g. \<not> g < f) ?K)"
    by (rule distinct_card) (simp add: dist)
  ultimately have ge: "Suc (nat (?m - ?n)) \<le> length (filter (\<lambda>g. \<not> g < f) ?K)" by simp
  have sum: "length (filter (\<lambda>g. g < f) ?K) + length (filter (\<lambda>g. \<not> g < f) ?K) = length ?K"
    by (rule sum_length_filter_compl)
  have len: "int (length ?K) = ?m - total_dropped p"
    using kept_frames_length [OF decimation_wf_offsets [OF assms(1)], of 0]
    by (simp add: total_dropped_def)
  have inv: "num_frames_decimated p = ?n - total_dropped p"
    using assms(1) by (simp add: decimation_wf_def decimation_invariant_def)
  have le: "?n \<le> ?m" using assms(1) by (simp add: decimation_wf_def)
  from ge sum len inv le show ?thesis by linarith
qed

text \<open>
  Where the decimation state is well formed, the two conversions are inverse to each
  other: for every frame \<open>f\<close> of \<open>[0, num_frames_source)\<close> that is not decimated,
  \<open>frameNumberBeforeDecimation(frameNumberAfterDecimation(f)) = f\<close>; and for every
  decimated frame \<open>f\<close> whose successor \<open>f + 1\<close> is a frame that is not decimated,
  \<open>frameNumberAfterDecimation(f) = frameNumberAfterDecimation(f + 1)\<close>.
\<close>

theorem decimation_round_trip:
  assumes "decimation_wf p"
  shows "(\<forall>f. isDecimatedFrame p f = Inr False \<longrightarrow>
            (\<exists>k. frameNumberAfterDecimation p f = Inr k \<and>
                 frameNumberBeforeDecimation p k = Inr f)) \<and>
         (\<forall>f. isDecimatedFrame p f = Inr True \<and> isDecimatedFrame p (f + 1) = Inr False \<longrightarrow>
            frameNumberAfterDecimation p f = frameNumberAfterDecimation p (f + 1))"
proof (intro conjI allI impI)
  fix f
  assume nd: "isDecimatedFrame p f = Inr False"
  let ?K = "kept_frames (decimated_frames p) 0"
  let ?k = "int (length (filter (\<lambda>g. g < f) ?K))"
  from nd have rng: "0 \<le> f" "f < num_frames_source p"
    and kept: "f mod 5 \<notin> decimated_frames p ! nat (f div 5)"
    by (auto simp: isDecimatedFrame_def split: if_splits)
  have c: "nat (f div 5) < length (decimated_frames p)"
    by (rule decimation_wf_cycle [OF assms rng])
  have after: "frameNumberAfterDecimation p f = Inr ?k"
    using frameNumberAfterDecimation_count [OF assms rng] kept by simp
  have "int (nat (f div 5)) * 5 + f mod 5 \<in> set ?K"
    using kept_frames_member [OF c, of "f mod 5"] kept by simp
  then have fK: "f \<in> set ?K" by (metis frame_split(1) rng(1))
  from sorted_index [OF kept_frames_sorted fK]
  have idx: "length (filter (\<lambda>g. g < f) ?K) < length ?K"
    "?K ! length (filter (\<lambda>g. g < f) ?K) = f" by auto
  have bound: "?k < num_frames_decimated p" by (rule kept_before_bound [OF assms rng kept])
  have "frameNumberBeforeDecimation p ?k = scan_cycles (decimated_frames p) 0 ?k"
    using bound by (simp add: frameNumberBeforeDecimation_def Let_def)
  also have "\<dots> = Inr f"
    using scan_cycles_kept [of ?k "decimated_frames p" 0] idx by simp
  finally show "\<exists>k. frameNumberAfterDecimation p f = Inr k \<and>
                 frameNumberBeforeDecimation p k = Inr f"
    using after by blast
next
  fix f
  assume a: "isDecimatedFrame p f = Inr True \<and> isDecimatedFrame p (f + 1) = Inr False"
  let ?K = "kept_frames (decimated_frames p) 0"
  from a have rng: "0 \<le> f" "f < num_frames_source p" "0 \<le> f + 1" "f + 1 < num_frames_source p"
    and dropped: "f mod 5 \<in> decimated_frames p ! nat (f div 5)"
    and kept: "(f + 1) mod 5 \<notin> decimated_frames p ! nat ((f + 1) div 5)"
    by (auto simp: isDecimatedFrame_def split: if_splits)
  have c: "nat (f div 5) < length (decimated_frames p)"
    by (rule decimation_wf_cycle [OF assms rng(1,2)])
  have "int (nat (f div 5)) * 5 + f mod 5 \<notin> set ?K"
    using kept_frames_member [OF c, of "f mod 5"] dropped by simp
  then have fK: "f \<notin> set ?K" by (metis frame_split(1) rng(1))
  have "filter (\<lambda>g. g < f + 1) ?K = filter (\<lambda>g. g < f) ?K"
  proof (rule filter_cong [OF refl])
    fix g assume "g \<in> set ?K"
    with fK have "g \<noteq> f" by blast
    then show "(g < f + 1) = (g < f)" by linarith
  qed
  then show "frameNumberAfterDecimation p f = frameNumberAfterDecimation p (f + 1)"
    using frameNumberAfterDecimation_count [OF assms rng(1,2)]
      frameNumberAfterDecimation_count [OF assms rng(3,4)] kept rng
    by simp
qed

text \<open>
  The scenario S1 satisfies the hypothesis: frame 2 is kept and maps to 1 and back;
  frame 1 is dropped, frame 2 is not, and both map to 1.
\<close>

lemma telecine_project_fields:
  "num_frames_source telecine_project = 10"
  "num_frames_decimated telecine_project = 8"
  "decimated_frames telecine_project = [{1}, {1}]"
  by (simp_all add: telecine_project_def project_eval addDecimatedFrame_def)

lemma telecine_project_wf: "decimation_wf telecine_project"
  by (auto simp: decimation_wf_def decimation_invariant_def total_dropped_def
        telecine_project_fields less_Suc_eq numeral_2_eq_2)

lemmas decimation_eval =
  telecine_project_fields frameNumberAfterDecimation_def frameNumberBeforeDecimation_def
  isDecimatedFrame_def upto.simps Let_def

theorem decimation_round_trip_witness:
  "decimation_wf telecine_project \<and>
   isDecimatedFrame telecine_project 2 = Inr False \<and>
   frameNumberAfterDecimation telecine_project 2 = Inr 1 \<and>
   frameNumberBeforeDecimation telecine_project 1 = Inr 2 \<and>
   isDecimatedFrame telecine_project 1 = Inr True \<and>
   isDecimatedFrame telecine_project (1 + 1) = Inr False \<and>
   frameNumberAfterDecimation telecine_project 1 = frameNumberAfterDecimation telecine_project (1 + 1) \<and>
   frameNumberAfterDecimation telecine_project 1 = Inr 1 \<and>
   frameNumberAfterDecimation telecine_project 6 = Inr 5 \<and>
   frameNumberAfterDecimation telecine_project 9 = Inr 7"
proof -
  note law = decimation_round_trip [OF telecine_project_wf]
  have k2: "isDecimatedFrame telecine_project 2 = Inr False"
    and d1: "isDecimatedFrame telecine_project 1 = Inr True"
    and k11: "isDecimatedFrame telecine_project (1 + 1) = Inr False"
    by (simp_all add: decimation_eval)
  have a2: "frameNumberAfterDecimation telecine_project 2 = Inr 1"
    and a1: "frameNumberAfterDecimation telecine_project 1 = Inr 1"
    and a6: "frameNumberAfterDecimation telecine_project 6 = Inr 5"
    and a9: "frameNumberAfterDecimation telecine_project 9 = Inr 7"
    by (simp_all add: decimation_eval)
  from law k2 obtain k where "frameNumberAfterDecimation telecine_project 2 = Inr k"
    and "frameNumberBeforeDecimation telecine_project k = Inr 2" by blast
  with a2 have b: "frameNumberBeforeDecimation telecine_project 1 = Inr 2" by simp
  from law d1 k11
  have e: "frameNumberAfterDecimation telecine_project 1 =
           frameNumberAfterDecimation telecine_project (1 + 1)" by blast
  from telecine_project_wf k2 a2 b d1 k11 e a1 a6 a9 show ?thesis by blast
qed

text \<open>
  C2 (a defect of the code, the one of C1). After \<open>commit\<close>,
  \<open>addDecimatedFrame(0)\<close>, \<open>commit\<close> and \<open>undo\<close> in a new project of ten frames,
  no frame is decimated but \<open>num_frames_decimated\<close> is still 9: frame 9 is not
  decimated, \<open>frameNumberAfterDecimation(9)\<close> is 9, and
  \<open>frameNumberBeforeDecimation(9)\<close> clamps its argument to 8 and returns 8, not 9.
\<close>

theorem undo_breaks_round_trip:
  "num_frames_source undo_scenario = 10 \<and>
   isDecimatedFrame undo_scenario 9 = Inr False \<and>
   frameNumberAfterDecimation undo_scenario 9 = Inr 9 \<and>
   frameNumberBeforeDecimation undo_scenario 9 = Inr 8"
  by (simp add: undo_scenario_def project_eval commit_def undo_def restoreState_def
        addDecimatedFrame_def frameNumberAfterDecimation_def frameNumberBeforeDecimation_def
        isDecimatedFrame_def upto.simps Let_def)

subsection \<open>The well-formed decimation state is an invariant\<close>

text \<open>
  The well-formed state is what the constructor establishes and what
  \<open>addDecimatedFrame\<close> and \<open>deleteDecimatedFrame\<close> keep.
\<close>

lemma new_project_wf:
  assumes "new_project n steps = Inr p"
  shows "decimation_wf p"
proof -
  from assms have n: "0 < n" by (auto simp: new_project_def addSection_def split: if_splits)
  then have len: "n \<le> 5 * (cpp_div (n - 1) 5 + 1)" by (simp add: cpp_div_def sgn_if) linarith
  from n have pos: "0 \<le> cpp_div (n - 1) 5 + 1" by (simp add: cpp_div_def sgn_if)
  from assms n len pos show ?thesis
    by (auto simp: new_project_def addSection_def setModified_def decimation_wf_def
          decimation_invariant_def total_dropped_def sum_list_replicate split: if_splits)
qed

lemma decimation_wf_finite:
  assumes "decimation_wf p"
  shows "\<forall>c \<in> set (decimated_frames p). finite c"
proof
  fix c assume c: "c \<in> set (decimated_frames p)"
  have "c \<subseteq> {0..4}"
  proof
    fix x assume "x \<in> c"
    with decimation_wf_offsets [OF assms] c have "0 \<le> x \<and> x < 5" by blast
    then show "x \<in> {0..4}" by simp
  qed
  then show "finite c" by (rule finite_subset) simp
qed

lemma decimation_wf_update:
  assumes wf: "decimation_wf p" and f: "0 \<le> f" "f < num_frames_source p"
    and sub: "c \<subseteq> insert (f mod 5) (decimated_frames p ! nat (f div 5))"
    and inv: "decimation_invariant p'"
    and n: "num_frames_source p' = num_frames_source p"
    and d: "decimated_frames p' = (decimated_frames p)[nat (f div 5) := c]"
  shows "decimation_wf p'"
proof -
  let ?ds = "decimated_frames p"
  from wf have wf1: "num_frames_source p \<le> 5 * int (length ?ds)"
    unfolding decimation_wf_def by blast
  from wf have wf2: "0 \<le> offset \<and> offset < 5 \<and> int k * 5 + offset < num_frames_source p"
    if "k < length ?ds" "offset \<in> ?ds ! k" for k offset
    using that unfolding decimation_wf_def by blast
  have len: "length (decimated_frames p') = length ?ds" unfolding d by simp
  have a: "num_frames_source p' \<le> 5 * int (length (decimated_frames p'))"
    unfolding n len by (rule wf1)
  have b: "0 \<le> offset \<and> offset < 5 \<and> int k * 5 + offset < num_frames_source p'"
    if k: "k < length (decimated_frames p')" and o: "offset \<in> decimated_frames p' ! k"
    for k offset
  proof (cases "k = nat (f div 5)")
    case True
    from k len have kl: "k < length ?ds" by simp
    from o have "offset \<in> c" unfolding d True using kl True by simp
    with sub have "offset = f mod 5 \<or> offset \<in> ?ds ! k" unfolding True by blast
    then show ?thesis
    proof
      assume e: "offset = f mod 5"
      have s: "int (nat (f div 5)) * 5 + f mod 5 = f" by (rule frame_split(1) [OF f(1)])
      have m: "0 \<le> f mod 5" "f mod 5 < 5" by simp_all
      show ?thesis unfolding n e True s using m f(2) by blast
    next
      assume "offset \<in> ?ds ! k"
      from wf2 [OF kl this] show ?thesis unfolding n .
    qed
  next
    case False
    from k len have kl: "k < length ?ds" by simp
    from o False have "offset \<in> ?ds ! k" unfolding d by simp
    from wf2 [OF kl this] show ?thesis unfolding n .
  qed
  show ?thesis unfolding decimation_wf_def using a b inv by blast
qed


lemma addDecimatedFrame_wf:
  assumes "decimation_wf p" and "addDecimatedFrame p f = Inr p'"
  shows "decimation_wf p'"
proof -
  let ?c = "insert (f mod 5) (decimated_frames p ! nat (f div 5))"
  let ?q = "p\<lparr>decimated_frames := (decimated_frames p)[nat (f div 5) := ?c],
              num_frames_decimated := num_frames_decimated p - 1\<rparr>"
  from assms(2) have f: "0 \<le> f" "f < num_frames_source p"
    by (simp_all add: addDecimatedFrame_def split: if_splits)
  from assms(2) have "p' = p \<or> p' = setModified True ?q"
    by (simp add: addDecimatedFrame_def split: if_splits)
  then show ?thesis
  proof
    assume "p' = p"
    with assms(1) show ?thesis by simp
  next
    assume e: "p' = setModified True ?q"
    have inv: "decimation_invariant p'"
      using addDecimatedFrame_invariant [OF _ decimation_wf_finite [OF assms(1)] assms(2)] assms(1)
      unfolding decimation_wf_def by blast
    have n: "num_frames_source p' = num_frames_source p"
      unfolding e by (simp add: setModified_def)
    have d: "decimated_frames p' = (decimated_frames p)[nat (f div 5) := ?c]"
      unfolding e by (simp add: setModified_def)
    show ?thesis by (rule decimation_wf_update [OF assms(1) f subset_refl inv n d])
  qed
qed

lemma deleteDecimatedFrame_wf:
  assumes "decimation_wf p" and "deleteDecimatedFrame p f = Inr p'"
  shows "decimation_wf p'"
proof -
  let ?c = "decimated_frames p ! nat (f div 5) - {f mod 5}"
  let ?q = "p\<lparr>decimated_frames := (decimated_frames p)[nat (f div 5) := ?c],
              num_frames_decimated := num_frames_decimated p + 1\<rparr>"
  from assms(2) have f: "0 \<le> f" "f < num_frames_source p"
    by (simp_all add: deleteDecimatedFrame_def split: if_splits)
  from assms(2) have "p' = p \<or> p' = setModified True ?q"
    by (simp add: deleteDecimatedFrame_def split: if_splits)
  then show ?thesis
  proof
    assume "p' = p"
    with assms(1) show ?thesis by simp
  next
    assume e: "p' = setModified True ?q"
    have inv: "decimation_invariant p'"
      using deleteDecimatedFrame_invariant [OF _ decimation_wf_finite [OF assms(1)] assms(2)]
        assms(1)
      unfolding decimation_wf_def by blast
    have n: "num_frames_source p' = num_frames_source p"
      unfolding e by (simp add: setModified_def)
    have d: "decimated_frames p' = (decimated_frames p)[nat (f div 5) := ?c]"
      unfolding e by (simp add: setModified_def)
    have sub: "?c \<subseteq> insert (f mod 5) (decimated_frames p ! nat (f div 5))" by blast
    show ?thesis by (rule decimation_wf_update [OF assms(1) f sub inv n d])
  qed
qed

end
